theory Spec2Isabelle
  imports Complex_Main "HOL-Library.Word" "HOL-Library.Multiset"
begin

section \<open>Counter cache\<close>

text \<open>
  The scraper keeps \<^verbatim>\<open>cache *lru.Cache[string, int64]\<close> (hashicorp/golang-lru/v2).
  The cache is a bounded list of entries ordered by recency, most recently used first.
  \<^verbatim>\<open>Get\<close> moves a hit to the front; \<^verbatim>\<open>Add\<close> updates a present key and moves it to
  the front, or pushes a new entry and removes the oldest one when the size is exceeded.
\<close>

type_synonym int64 = "64 word"

record 'v lru =
  lru_size :: nat
  lru_items :: "(string \<times> 'v) list"

definition lru_New :: "nat \<Rightarrow> 'v lru" where
  "lru_New n = \<lparr>lru_size = n, lru_items = []\<rparr>"

definition lru_Peek :: "'v lru \<Rightarrow> string \<Rightarrow> 'v option" where
  "lru_Peek c k = map_of (lru_items c) k"

definition lru_touch :: "string \<Rightarrow> 'v \<Rightarrow> (string \<times> 'v) list \<Rightarrow> (string \<times> 'v) list" where
  "lru_touch k v its = (k, v) # filter (\<lambda>p. fst p \<noteq> k) its"

definition lru_Get :: "'v lru \<Rightarrow> string \<Rightarrow> 'v option \<times> 'v lru" where
  "lru_Get c k =
     (case map_of (lru_items c) k of
        None \<Rightarrow> (None, c)
      | Some v \<Rightarrow> (Some v, c\<lparr>lru_items := lru_touch k v (lru_items c)\<rparr>))"

definition lru_Add :: "'v lru \<Rightarrow> string \<Rightarrow> 'v \<Rightarrow> 'v lru" where
  "lru_Add c k v =
     (case map_of (lru_items c) k of
        Some old \<Rightarrow> c\<lparr>lru_items := lru_touch k v (lru_items c)\<rparr>
      | None \<Rightarrow>
          (let its = (k, v) # lru_items c
           in c\<lparr>lru_items := (if lru_size c < length its then butlast its else its)\<rparr>))"

text \<open>
  \<^verbatim>\<open>cacheAndDiff\<close> of the int64 revisions (scraper.go:562 and its later copy). The
  receiver's cache pointer may be nil (\<open>None\<close>); the updated cache is returned as the
  third component.
\<close>

definition counterKey :: "string \<Rightarrow> string \<Rightarrow> string \<Rightarrow> string" where
  "counterKey queryHash queryPlanHash column = queryHash @ ''-'' @ queryPlanHash @ ''-'' @ column"

definition cacheAndDiff ::
  "int64 lru option \<Rightarrow> string \<Rightarrow> string \<Rightarrow> string \<Rightarrow> int64 \<Rightarrow> bool \<times> int64 \<times> int64 lru option" where
  "cacheAndDiff cache queryHash queryPlanHash column val =
     (case cache of
        None \<Rightarrow> (False, 0, None)
      | Some c \<Rightarrow>
          if val <s 0 then (False, 0, Some c)
          else
            (let key = counterKey queryHash queryPlanHash column
             in case lru_Get c key of
                  (None, c1) \<Rightarrow> (False, val, Some (lru_Add c1 key val))
                | (Some cached, c1) \<Rightarrow>
                    if cached <s val then (True, val - cached, Some (lru_Add c1 key val))
                    else (True, 0, Some c1)))"

text \<open>
  \<^verbatim>\<open>cacheAndDiff\<close> of the float64 revision (scraper.go:1510): the guard is
  \<^verbatim>\<open>val <= 0\<close>. The value type is left open: the definition uses only the comparison,
  zero and subtraction of the type, whatever they are.
\<close>

definition cacheAndDiff_f64 ::
  "'a lru option \<Rightarrow> string \<Rightarrow> string \<Rightarrow> string \<Rightarrow> 'a::{zero,minus,ord}
     \<Rightarrow> bool \<times> 'a \<times> 'a lru option" where
  "cacheAndDiff_f64 cache queryHash queryPlanHash column val =
     (case cache of
        None \<Rightarrow> (False, 0, None)
      | Some c \<Rightarrow>
          if val \<le> 0 then (False, 0, Some c)
          else
            (let key = counterKey queryHash queryPlanHash column
             in case lru_Get c key of
                  (None, c1) \<Rightarrow> (False, val, Some (lru_Add c1 key val))
                | (Some cached, c1) \<Rightarrow>
                    if val > cached then (True, val - cached, Some (lru_Add c1 key val))
                    else (True, 0, Some c1)))"

section \<open>Library functions the scraper calls\<close>

text \<open>
  \<^verbatim>\<open>hex.EncodeToString\<close>: two lower-case hexadecimal digits per byte.
\<close>

definition hexDigit :: "nat \<Rightarrow> char" where
  "hexDigit n = ''0123456789abcdef'' ! (n mod 16)"

definition EncodeToString :: "string \<Rightarrow> string" where
  "EncodeToString s = concat (map (\<lambda>c. [hexDigit (of_char c div 16), hexDigit (of_char c mod 16)]) s)"

text \<open>
  \<^verbatim>\<open>strconv.ParseInt(s, 10, 64)\<close>: an optional sign and decimal digits. The value comes
  back together with the error: 0 on a syntax error, the nearest bound on a range error.
\<close>

datatype numErr = ErrSyntax | ErrRange

definition isDigit :: "char \<Rightarrow> bool" where
  "isDigit c = (48 \<le> (of_char c :: nat) \<and> (of_char c :: nat) \<le> 57)"

definition digitVal :: "char \<Rightarrow> nat" where
  "digitVal c = of_char c - 48"

definition maxUint64 :: nat where
  "maxUint64 = 18446744073709551615"

fun ParseUint_loop :: "nat \<Rightarrow> string \<Rightarrow> nat \<times> numErr option" where
  "ParseUint_loop n [] = (n, None)"
| "ParseUint_loop n (c # cs) =
     (if \<not> isDigit c then (0, Some ErrSyntax)
      else if maxUint64 div 10 + 1 \<le> n then (maxUint64, Some ErrRange)
      else if maxUint64 < n * 10 + digitVal c then (maxUint64, Some ErrRange)
      else ParseUint_loop (n * 10 + digitVal c) cs)"

definition ParseUint :: "string \<Rightarrow> nat \<times> numErr option" where
  "ParseUint s = (if s = [] then (0, Some ErrSyntax) else ParseUint_loop 0 s)"

definition ParseInt :: "string \<Rightarrow> int64 \<times> numErr option" where
  "ParseInt s0 =
     (case s0 of
        [] \<Rightarrow> (0, Some ErrSyntax)
      | c # cs \<Rightarrow>
          (let neg = (c = CHR ''-'');
               s = (if c = CHR ''+'' \<or> c = CHR ''-'' then cs else s0)
           in case ParseUint s of
                (un, Some ErrSyntax) \<Rightarrow> (0, Some ErrSyntax)
              | (un, r) \<Rightarrow>
                  if \<not> neg \<and> 2 ^ 63 \<le> un then (word_of_nat (2 ^ 63 - 1), Some ErrRange)
                  else if neg \<and> 2 ^ 63 < un then (- word_of_nat (2 ^ 63), Some ErrRange)
                  else (if neg then - word_of_nat un else word_of_nat un, None)))"

text \<open>Go's \<^verbatim>\<open>/\<close> on int64 truncates towards zero.\<close>

definition int64_quo :: "int64 \<Rightarrow> int64 \<Rightarrow> int64" where
  "int64_quo a b = word_of_int (sgn (sint a) * sgn (sint b) * (\<bar>sint a\<bar> div \<bar>sint b\<bar>))"

definition HasPrefix :: "string \<Rightarrow> string \<Rightarrow> bool" where
  "HasPrefix s p = (take (length p) s = p)"

text \<open>
  \<^verbatim>\<open>sort.Slice(x, less)\<close> sorts in place and is documented as not stable. The scraper
  calls it with comparisons of the form \<^verbatim>\<open>key(a) > key(b)\<close>. A sorting function meets
  the documented behaviour when its result is a permutation of the input and is in
  descending order of the key.
\<close>

definition sort_Slice_spec :: "(('a \<Rightarrow> 'a \<Rightarrow> bool) \<Rightarrow> 'a list \<Rightarrow> 'a list) \<Rightarrow> bool" where
  "sort_Slice_spec srt =
     ((\<forall>lt xs. mset (srt lt xs) = mset xs) \<and>
      (\<forall>(key :: 'a \<Rightarrow> int) xs. sorted_wrt (\<lambda>a b. key b \<le> key a) (srt (\<lambda>a b. key b < key a) xs)))"

text \<open>
  The insertion sort that \<^verbatim>\<open>sort.Slice\<close> runs on slices of at most 12 elements:
  each element moves left while it is less than its left neighbour. The sorted prefix
  is kept reversed, nearest neighbour first.
\<close>

fun insertLeft :: "('a \<Rightarrow> 'a \<Rightarrow> bool) \<Rightarrow> 'a \<Rightarrow> 'a list \<Rightarrow> 'a list" where
  "insertLeft lt x [] = [x]"
| "insertLeft lt x (y # ys) = (if lt x y then y # insertLeft lt x ys else x # y # ys)"

definition insertionSort_func :: "('a \<Rightarrow> 'a \<Rightarrow> bool) \<Rightarrow> 'a list \<Rightarrow> 'a list" where
  "insertionSort_func lt xs = rev (foldl (\<lambda>acc x. insertLeft lt x acc) [] xs)"

unbundle bit_operations_syntax

text \<open>
  \<^verbatim>\<open>sort.Slice\<close> as the Go standard library implements it since Go 1.19
  (\<^verbatim>\<open>sort/slice.go\<close>, \<^verbatim>\<open>sort/zsortfunc.go\<close>): a pattern-defeating quicksort on the slice
  \<^verbatim>\<open>data[a:b]\<close>, reached through \<^verbatim>\<open>data.Less(i, j)\<close> and \<^verbatim>\<open>data.Swap(i, j)\<close>. The scraper's
  comparisons read the slice at \<open>i\<close> and \<open>j\<close>, so \<open>Less\<close> applies the comparison \<open>lt\<close> to
  the two elements. Every index the functions use lies inside the slice.
  Indices are Go's \<^verbatim>\<open>int\<close>.
\<close>

definition Less :: "('a \<Rightarrow> 'a \<Rightarrow> bool) \<Rightarrow> 'a list \<Rightarrow> int \<Rightarrow> int \<Rightarrow> bool" where
  "Less lt data i j = lt (data ! nat i) (data ! nat j)"

definition Swap :: "'a list \<Rightarrow> int \<Rightarrow> int \<Rightarrow> 'a list" where
  "Swap data i j = (data[nat i := data ! nat j])[nat j := data ! nat i]"

text \<open>
  \<^verbatim>\<open>insertionSort_func(data, a, b)\<close>: the insertion sort above, on \<^verbatim>\<open>data[a:b]\<close>.
\<close>

definition insertionSort_range :: "('a \<Rightarrow> 'a \<Rightarrow> bool) \<Rightarrow> 'a list \<Rightarrow> int \<Rightarrow> int \<Rightarrow> 'a list" where
  "insertionSort_range lt data a b =
     take (nat a) data @ insertionSort_func lt (take (nat (b - a)) (drop (nat a) data)) @ drop (nat b) data"

text \<open>
  \<^verbatim>\<open>siftDown_func\<close> and \<^verbatim>\<open>heapSort_func\<close>: the heap sort that takes over when the limit of
  unbalanced partitions is used up. The offsets \<open>lo\<close>, \<open>hi\<close> and \<open>root\<close> count from
  \<open>first\<close> and are never negative.
\<close>

function siftDown_func :: "('a \<Rightarrow> 'a \<Rightarrow> bool) \<Rightarrow> 'a list \<Rightarrow> nat \<Rightarrow> nat \<Rightarrow> int \<Rightarrow> 'a list" where
  "siftDown_func lt data rt hi first =
     (let child = 2 * rt + 1
      in if child \<ge> hi then data
         else (let child = (if child + 1 < hi \<and> Less lt data (first + int child) (first + int child + 1)
                            then child + 1 else child)
               in if \<not> Less lt data (first + int rt) (first + int child) then data
                  else siftDown_func lt (Swap data (first + int rt) (first + int child)) child hi first))"
  by pat_completeness auto
termination
  by (relation "measure (\<lambda>(lt, data, rt, hi, first). hi - rt)") (auto simp: Let_def)

declare siftDown_func.simps [simp del]

definition heapSort_func :: "('a \<Rightarrow> 'a \<Rightarrow> bool) \<Rightarrow> 'a list \<Rightarrow> int \<Rightarrow> int \<Rightarrow> 'a list" where
  "heapSort_func lt data a b =
     (let first = a; lo = 0; hi = nat (b - a);
          data = foldl (\<lambda>data i. siftDown_func lt data i hi first) data (rev [0..<Suc ((hi - 1) div 2)])
      in foldl (\<lambda>data i. siftDown_func lt (Swap data first (first + int i)) lo i first) data (rev [0..<hi]))"

text \<open>
  \<^verbatim>\<open>breakPatterns_func\<close> swaps three elements around the middle with positions drawn from
  a xorshift generator seeded with the length. \<^verbatim>\<open>bits.Len\<close> is the number of bits of its
  argument.
\<close>

fun bits_Len :: "nat \<Rightarrow> nat" where
  "bits_Len n = (if n = 0 then 0 else Suc (bits_Len (n div 2)))"

definition xorshift_Next :: "64 word \<Rightarrow> 64 word" where
  "xorshift_Next r =
     (let r1 = r XOR push_bit 13 r;
          r2 = r1 XOR drop_bit 7 r1
      in r2 XOR push_bit 17 r2)"

definition nextPowerOfTwo :: "int \<Rightarrow> 64 word" where
  "nextPowerOfTwo len = push_bit (bits_Len (nat len)) 1"

fun breakLoop :: "'a list \<Rightarrow> int \<Rightarrow> int \<Rightarrow> int \<Rightarrow> 64 word \<Rightarrow> 64 word \<Rightarrow> int list \<Rightarrow> 'a list" where
  "breakLoop data a len idx modulus random [] = data"
| "breakLoop data a len idx modulus random (i # is) =
     (let random = xorshift_Next random;
          other = uint (random AND (modulus - 1));
          other = (if other \<ge> len then other - len else other)
      in breakLoop (Swap data (idx - 1 + i) (a + other)) a len idx modulus random is)"

definition breakPatterns_func :: "'a list \<Rightarrow> int \<Rightarrow> int \<Rightarrow> 'a list" where
  "breakPatterns_func data a b =
     (let len = b - a
      in if len \<ge> 8
         then breakLoop data a len (a + (len div 4) * 2 - 1) (nextPowerOfTwo len)
                (word_of_int len) [0, 1, 2]
         else data)"

text \<open>
  \<^verbatim>\<open>choosePivot_func\<close>: a static pivot below 8 elements, the median of three below 50,
  Tukey's ninther from 50 on. The number of swaps the medians needed says whether the
  slice looks increasing (none) or decreasing (all twelve).
\<close>

datatype sortedHint = unknownHint | increasingHint | decreasingHint

definition order2_func :: "('a \<Rightarrow> 'a \<Rightarrow> bool) \<Rightarrow> 'a list \<Rightarrow> int \<Rightarrow> int \<Rightarrow> nat \<Rightarrow> int \<times> int \<times> nat" where
  "order2_func lt data a b swaps = (if Less lt data b a then (b, a, Suc swaps) else (a, b, swaps))"

definition median_func :: "('a \<Rightarrow> 'a \<Rightarrow> bool) \<Rightarrow> 'a list \<Rightarrow> int \<Rightarrow> int \<Rightarrow> int \<Rightarrow> nat \<Rightarrow> int \<times> nat" where
  "median_func lt data a b c swaps =
     (case order2_func lt data a b swaps of (a, b, swaps) \<Rightarrow>
      case order2_func lt data b c swaps of (b, c, swaps) \<Rightarrow>
      case order2_func lt data a b swaps of (a, b, swaps) \<Rightarrow> (b, swaps))"

definition medianAdjacent_func :: "('a \<Rightarrow> 'a \<Rightarrow> bool) \<Rightarrow> 'a list \<Rightarrow> int \<Rightarrow> nat \<Rightarrow> int \<times> nat" where
  "medianAdjacent_func lt data a swaps = median_func lt data (a - 1) a (a + 1) swaps"

definition choosePivot_func :: "('a \<Rightarrow> 'a \<Rightarrow> bool) \<Rightarrow> 'a list \<Rightarrow> int \<Rightarrow> int \<Rightarrow> int \<times> sortedHint" where
  "choosePivot_func lt data a b =
     (let l = b - a;
          i = a + l div 4 * 1;
          j = a + l div 4 * 2;
          k = a + l div 4 * 3
      in case (if l \<ge> 8
               then (case (if l \<ge> 50
                           then (case medianAdjacent_func lt data i 0 of (i, swaps) \<Rightarrow>
                                 case medianAdjacent_func lt data j swaps of (j, swaps) \<Rightarrow>
                                 case medianAdjacent_func lt data k swaps of (k, swaps) \<Rightarrow> (i, j, k, swaps))
                           else (i, j, k, 0)) of
                       (i, j, k, swaps) \<Rightarrow> median_func lt data i j k swaps)
               else (j, 0)) of
           (j, swaps) \<Rightarrow>
             (j, if swaps = 0 then increasingHint else if swaps = 12 then decreasingHint else unknownHint))"

text \<open>\<^verbatim>\<open>reverseRange_func\<close> reverses \<^verbatim>\<open>data[a:b]\<close>.\<close>

function reverseRange_loop :: "'a list \<Rightarrow> int \<Rightarrow> int \<Rightarrow> 'a list" where
  "reverseRange_loop data i j = (if i < j then reverseRange_loop (Swap data i j) (i + 1) (j - 1) else data)"
  by pat_completeness auto
termination
  by (relation "measure (\<lambda>(data, i, j). nat (j - i))") auto

declare reverseRange_loop.simps [simp del]

definition reverseRange_func :: "'a list \<Rightarrow> int \<Rightarrow> int \<Rightarrow> 'a list" where
  "reverseRange_func data a b = reverseRange_loop data a (b - 1)"

text \<open>
  The two scans that the partitions and the partial insertion sort are made of:
  \<^verbatim>\<open>for i <= j && P(i) { i++ }\<close> and \<^verbatim>\<open>for i <= j && P(j) { j-- }\<close>.
\<close>

function scanUp :: "(int \<Rightarrow> bool) \<Rightarrow> int \<Rightarrow> int \<Rightarrow> int" where
  "scanUp P i j = (if i \<le> j \<and> P i then scanUp P (i + 1) j else i)"
  by pat_completeness auto
termination
  by (relation "measure (\<lambda>(P, i, j). nat (j + 1 - i))") auto

declare scanUp.simps [simp del]

function scanDown :: "(int \<Rightarrow> bool) \<Rightarrow> int \<Rightarrow> int \<Rightarrow> int" where
  "scanDown P i j = (if i \<le> j \<and> P j then scanDown P i (j - 1) else j)"
  by pat_completeness auto
termination
  by (relation "measure (\<lambda>(P, i, j). nat (j + 1 - i))") auto

declare scanDown.simps [simp del]

text \<open>
  \<^verbatim>\<open>partialInsertionSort_func\<close>: at most five out-of-order neighbours are put in place;
  the result says whether the slice is sorted at the end. A slice of fewer than 50
  elements is left as it is at the first pair out of order.
\<close>

function shiftLeft :: "('a \<Rightarrow> 'a \<Rightarrow> bool) \<Rightarrow> 'a list \<Rightarrow> int \<Rightarrow> 'a list" where
  "shiftLeft lt data j =
     (if j \<ge> 1 then (if \<not> Less lt data j (j - 1) then data else shiftLeft lt (Swap data j (j - 1)) (j - 1))
      else data)"
  by pat_completeness auto
termination
  by (relation "measure (\<lambda>(lt, data, j). nat j)") auto

declare shiftLeft.simps [simp del]

function shiftRight :: "('a \<Rightarrow> 'a \<Rightarrow> bool) \<Rightarrow> 'a list \<Rightarrow> int \<Rightarrow> int \<Rightarrow> 'a list" where
  "shiftRight lt data j b =
     (if j < b then (if \<not> Less lt data j (j - 1) then data else shiftRight lt (Swap data j (j - 1)) (j + 1) b)
      else data)"
  by pat_completeness auto
termination
  by (relation "measure (\<lambda>(lt, data, j, b). nat (b - j))") auto

declare shiftRight.simps [simp del]

fun partialInsertionSort_loop ::
  "('a \<Rightarrow> 'a \<Rightarrow> bool) \<Rightarrow> 'a list \<Rightarrow> int \<Rightarrow> int \<Rightarrow> int \<Rightarrow> nat \<Rightarrow> 'a list \<times> bool" where
  "partialInsertionSort_loop lt data a b i 0 = (data, False)"
| "partialInsertionSort_loop lt data a b i (Suc steps) =
     (let i = scanUp (\<lambda>i. \<not> Less lt data i (i - 1)) i (b - 1)
      in if i = b then (data, True)
         else if b - a < 50 then (data, False)
         else (let data = Swap data i (i - 1);
                   data = (if i - a \<ge> 2 then shiftLeft lt data (i - 1) else data);
                   data = (if b - i \<ge> 2 then shiftRight lt data (i + 1) b else data)
               in partialInsertionSort_loop lt data a b i steps))"

definition partialInsertionSort_func :: "('a \<Rightarrow> 'a \<Rightarrow> bool) \<Rightarrow> 'a list \<Rightarrow> int \<Rightarrow> int \<Rightarrow> 'a list \<times> bool" where
  "partialInsertionSort_func lt data a b = partialInsertionSort_loop lt data a b (a + 1) 5"

text \<open>
  \<^verbatim>\<open>partitionEqual_func\<close>: the elements equal to the pivot come first, then the greater
  ones; the result is the start of the latter.
\<close>

function partitionEqual_loop :: "('a \<Rightarrow> 'a \<Rightarrow> bool) \<Rightarrow> 'a list \<Rightarrow> int \<Rightarrow> int \<Rightarrow> int \<Rightarrow> 'a list \<times> int" where
  "partitionEqual_loop lt data a i j =
     (let i = scanUp (\<lambda>i. \<not> Less lt data a i) i j;
          j = scanDown (\<lambda>j. Less lt data a j) i j
      in if i > j then (data, i)
         else partitionEqual_loop lt (Swap data i j) a (i + 1) (j - 1))"
  by pat_completeness auto
termination
proof (relation "measure (\<lambda>(lt, data, a, i, j). nat (j + 1 - i))", goal_cases)
  case 1
  then show ?case by simp
next
  case (2 lt data a i j x xa)
  have up: "i \<le> scanUp P i j" for P i j
    by (induction P i j rule: scanUp.induct) (subst scanUp.simps, auto)
  have down: "scanDown P i j \<le> j" for P i j
    by (induction P i j rule: scanDown.induct) (subst scanDown.simps, auto)
  from 2 up [of i "\<lambda>i. \<not> Less lt data a i" j] down [of "\<lambda>j. Less lt data a j" x j]
  show ?case by simp
qed

declare partitionEqual_loop.simps [simp del]

definition partitionEqual_func :: "('a \<Rightarrow> 'a \<Rightarrow> bool) \<Rightarrow> 'a list \<Rightarrow> int \<Rightarrow> int \<Rightarrow> int \<Rightarrow> 'a list \<times> int" where
  "partitionEqual_func lt data a b pivot = partitionEqual_loop lt (Swap data a pivot) a (a + 1) (b - 1)"

text \<open>
  \<^verbatim>\<open>partition_func\<close>: one quicksort partition around \<^verbatim>\<open>data[pivot]\<close>; the result is the
  final position of the pivot and whether the slice was already partitioned.
\<close>

function partition_loop :: "('a \<Rightarrow> 'a \<Rightarrow> bool) \<Rightarrow> 'a list \<Rightarrow> int \<Rightarrow> int \<Rightarrow> int \<Rightarrow> 'a list \<times> int" where
  "partition_loop lt data a i j =
     (let i = scanUp (\<lambda>i. Less lt data i a) i j;
          j = scanDown (\<lambda>j. \<not> Less lt data j a) i j
      in if i > j then (data, j)
         else partition_loop lt (Swap data i j) a (i + 1) (j - 1))"
  by pat_completeness auto
termination
proof (relation "measure (\<lambda>(lt, data, a, i, j). nat (j + 1 - i))", goal_cases)
  case 1
  then show ?case by simp
next
  case (2 lt data a i j x xa)
  have up: "i \<le> scanUp P i j" for P i j
    by (induction P i j rule: scanUp.induct) (subst scanUp.simps, auto)
  have down: "scanDown P i j \<le> j" for P i j
    by (induction P i j rule: scanDown.induct) (subst scanDown.simps, auto)
  from 2 up [of i "\<lambda>i. Less lt data i a" j] down [of "\<lambda>j. \<not> Less lt data j a" x j]
  show ?case by simp
qed

declare partition_loop.simps [simp del]

definition partition_func ::
  "('a \<Rightarrow> 'a \<Rightarrow> bool) \<Rightarrow> 'a list \<Rightarrow> int \<Rightarrow> int \<Rightarrow> int \<Rightarrow> 'a list \<times> int \<times> bool" where
  "partition_func lt data0 a b pivot =
     (let data = Swap data0 a pivot;
          i = scanUp (\<lambda>i. Less lt data i a) (a + 1) (b - 1);
          j = scanDown (\<lambda>j. \<not> Less lt data j a) i (b - 1)
      in if i > j then (Swap data j a, j, True)
         else (case partition_loop lt (Swap data i j) a (i + 1) (j - 1) of
                 (data, j) \<Rightarrow> (Swap data j a, j, False)))"

text \<open>
  \<^verbatim>\<open>pdqsort_func(data, a, b, limit)\<close>. The loop of the source is the recursion on the
  narrowed range, with \<^verbatim>\<open>wasBalanced\<close> and \<^verbatim>\<open>wasPartitioned\<close> as arguments. Every partition
  returns a position inside the range, so the range shrinks at every turn.
\<close>

function pdqsort_func ::
  "('a \<Rightarrow> 'a \<Rightarrow> bool) \<Rightarrow> 'a list \<Rightarrow> int \<Rightarrow> int \<Rightarrow> nat \<Rightarrow> bool \<Rightarrow> bool \<Rightarrow> 'a list" where
  "pdqsort_func lt data a b limit wasBalanced wasPartitioned =
     (let len = b - a
      in if len \<le> 12 then insertionSort_range lt data a b
         else if limit = 0 then heapSort_func lt data a b
         else
           (case (if \<not> wasBalanced then (breakPatterns_func data a b, limit - 1) else (data, limit)) of
              (data, limit) \<Rightarrow>
            case choosePivot_func lt data a b of (pivot, hint) \<Rightarrow>
            case (if hint = decreasingHint
                  then (reverseRange_func data a b, (b - 1) - (pivot - a), increasingHint)
                  else (data, pivot, hint)) of
              (data, pivot, hint) \<Rightarrow>
            case (if wasBalanced \<and> wasPartitioned \<and> hint = increasingHint
                  then partialInsertionSort_func lt data a b else (data, False)) of
              (data, isSorted) \<Rightarrow>
            if isSorted then data
            else if a > 0 \<and> \<not> Less lt data (a - 1) pivot
            then (case partitionEqual_func lt data a b pivot of
                    (data, mid) \<Rightarrow> pdqsort_func lt data mid b limit wasBalanced wasPartitioned)
            else (case partition_func lt data a b pivot of
                    (data, mid, alreadyPartitioned) \<Rightarrow>
                      (let leftLen = mid - a; rightLen = b - mid; balanceThreshold = len div 8
                       in if leftLen < rightLen
                          then pdqsort_func lt (pdqsort_func lt data a mid limit True True)
                                 (mid + 1) b limit (leftLen \<ge> balanceThreshold) alreadyPartitioned
                          else pdqsort_func lt (pdqsort_func lt data (mid + 1) b limit True True)
                                 a mid limit (rightLen \<ge> balanceThreshold) alreadyPartitioned))))"
  by pat_completeness auto
termination
proof -
  have up: "i \<le> scanUp P i j" for P i j
    by (induction P i j rule: scanUp.induct) (subst scanUp.simps, auto)
  have down: "scanDown P i j \<le> j \<and> min (i - 1) j \<le> scanDown P i j" for P i j
    by (induction P i j rule: scanDown.induct) (subst (1 2) scanDown.simps, auto)
  have eq_loop: "i \<le> snd (partitionEqual_loop lt data a i j)"
    for lt :: "'a \<Rightarrow> 'a \<Rightarrow> bool" and data a i j
  proof (induction lt data a i j rule: partitionEqual_loop.induct)
    case (1 lt data a i j)
    let ?i = "scanUp (\<lambda>i. \<not> Less lt data a i) i j"
    let ?j = "scanDown (\<lambda>j. Less lt data a j) ?i j"
    have i: "i \<le> ?i" by (rule up)
    show ?case
    proof (cases "?i > ?j")
      case True
      then show ?thesis using i by (subst partitionEqual_loop.simps) (simp add: Let_def)
    next
      case False
      with 1 [OF refl refl]
      have "?i + 1 \<le> snd (partitionEqual_loop lt (Swap data ?i ?j) a (?i + 1) (?j - 1))"
        by simp
      with False i show ?thesis by (subst partitionEqual_loop.simps) (simp add: Let_def)
    qed
  qed
  have eq_mid: "a < mid" if "(d, mid) = partitionEqual_func lt data a b pivot"
    for lt :: "'a \<Rightarrow> 'a \<Rightarrow> bool" and data a b pivot d mid
    using eq_loop [of "a + 1" lt "Swap data a pivot" a "b - 1"] that [symmetric]
    by (simp add: partitionEqual_func_def)
  have loop: "min (i - 1) j \<le> snd (partition_loop lt data a i j) \<and> snd (partition_loop lt data a i j) \<le> j"
    for lt :: "'a \<Rightarrow> 'a \<Rightarrow> bool" and data a i j
  proof (induction lt data a i j rule: partition_loop.induct)
    case (1 lt data a i j)
    let ?i = "scanUp (\<lambda>i. Less lt data i a) i j"
    let ?j = "scanDown (\<lambda>j. \<not> Less lt data j a) ?i j"
    let ?r = "snd (partition_loop lt (Swap data ?i ?j) a (?i + 1) (?j - 1))"
    have i: "i \<le> ?i" by (rule up)
    have j: "?j \<le> j \<and> min (?i - 1) j \<le> ?j" by (rule down)
    show ?case
    proof (cases "?i > ?j")
      case True
      then have "snd (partition_loop lt data a i j) = ?j"
        by (subst partition_loop.simps) (simp add: Let_def)
      with i j show ?thesis by (auto simp: min_def split: if_splits)
    next
      case False
      then have e: "snd (partition_loop lt data a i j) = ?r"
        by (subst partition_loop.simps) (simp add: Let_def)
      from False 1 [OF refl refl]
      have "min (?i + 1 - 1) (?j - 1) \<le> ?r \<and> ?r \<le> ?j - 1"
        by simp
      with False i j show ?thesis unfolding e by (auto simp: min_def split: if_splits)
    qed
  qed
  have mid: "a \<le> mid \<and> mid < b"
    if "(d, y) = partition_func lt data a b pivot" "(mid, ap) = y" "a < b"
    for lt :: "'a \<Rightarrow> 'a \<Rightarrow> bool" and data a b pivot d y mid ap
  proof -
    let ?d = "Swap data a pivot"
    let ?i = "scanUp (\<lambda>i. Less lt ?d i a) (a + 1) (b - 1)"
    let ?j = "scanDown (\<lambda>j. \<not> Less lt ?d j a) ?i (b - 1)"
    let ?r = "snd (partition_loop lt (Swap ?d ?i ?j) a (?i + 1) (?j - 1))"
    have p: "partition_func lt data a b pivot = (d, mid, ap)" using that(1,2) by simp
    have i: "a + 1 \<le> ?i" by (rule up)
    have j: "?j \<le> b - 1 \<and> min (?i - 1) (b - 1) \<le> ?j" by (rule down)
    show ?thesis
    proof (cases "?i > ?j")
      case True
      then have "mid = ?j" using p by (simp add: partition_func_def Let_def)
      with i j that(3) show ?thesis by (auto simp: min_def split: if_splits)
    next
      case False
      then have e: "mid = ?r" using p by (auto simp: partition_func_def Let_def split: prod.splits)
      have "min (?i + 1 - 1) (?j - 1) \<le> ?r \<and> ?r \<le> ?j - 1"
        by (rule loop)
      with False i j that(3) show ?thesis unfolding e by (auto simp: min_def split: if_splits)
    qed
  qed
  show ?thesis
  proof (relation "measure (\<lambda>(lt, data, a, b, limit, wb, wp). nat (b - a))", goal_cases)
    case 1
    then show ?case by simp
  next
    case prems: 2
    from prems(1,2) eq_mid [OF prems(11)]
    show ?case by simp
  next
    case prems: 3
    from prems(1,2,13-) mid [OF prems(11,12)]
    show ?case by simp
  next
    case prems: 4
    from prems(1,2,13-) mid [OF prems(11,12)]
    show ?case by simp
  next
    case prems: 5
    from prems(1,2,13-) mid [OF prems(11,12)]
    show ?case by simp
  next
    case prems: 6
    from prems(1,2,13-) mid [OF prems(11,12)]
    show ?case by simp
  qed
qed

declare pdqsort_func.simps [simp del]

text \<open>\<^verbatim>\<open>sort.Slice(x, less)\<close>: the limit is \<^verbatim>\<open>bits.Len(uint(length))\<close>.\<close>

definition sort_Slice :: "('a \<Rightarrow> 'a \<Rightarrow> bool) \<Rightarrow> 'a list \<Rightarrow> 'a list" where
  "sort_Slice lt x = pdqsort_func lt x 0 (int (length x)) (bits_Len (length x)) True True"

text \<open>
  \<^verbatim>\<open>sortRows\<close>: the index slice is sorted by descending value and the rows are read
  through it. The result has \<^verbatim>\<open>len(rows)\<close> entries; an index outside the rows or
  the result is a run-time panic (\<open>None\<close>), and entries never written stay nil maps.
\<close>

type_synonym StringMap = "(string \<times> string) list"

definition row_get :: "StringMap \<Rightarrow> string \<Rightarrow> string" where
  "row_get row k = (case map_of row k of None \<Rightarrow> [] | Some v \<Rightarrow> v)"

definition sortRows ::
  "((nat \<Rightarrow> nat \<Rightarrow> bool) \<Rightarrow> nat list \<Rightarrow> nat list) \<Rightarrow> StringMap list \<Rightarrow> int64 list
     \<Rightarrow> StringMap list option" where
  "sortRows sortSlice rows values =
     (let indices = sortSlice (\<lambda>a b. values ! b <s values ! a) [0..<length values]
      in if length indices \<le> length rows \<and> list_all (\<lambda>idx. idx < length rows) indices
         then Some (map (\<lambda>idx. rows ! idx) indices @ replicate (length rows - length indices) [])
         else None)"

text \<open>
  \<^verbatim>\<open>bytes.TrimSpace\<close> removes leading and trailing white space runes: the six ASCII ones
  and the UTF-8 encodings of U+0085, U+00A0, U+1680, U+2000 to U+200A, U+2028, U+2029,
  U+202F, U+205F and U+3000. \<open>stripSpace\<close> removes one such rune from the front of the
  bytes, \<open>stripSpaceRev\<close> from the front of the reversed bytes.
\<close>

definition asciiSpace :: "char \<Rightarrow> bool" where
  "asciiSpace c = ((of_char c :: nat) \<in> {9, 10, 11, 12, 13, 32})"

definition stripSpace :: "string \<Rightarrow> string option" where
  "stripSpace s =
     (case map of_char s :: nat list of
        [] \<Rightarrow> None
      | a # r1 \<Rightarrow>
          if asciiSpace (hd s) then Some (drop 1 s)
          else (case r1 of
                  [] \<Rightarrow> None
                | b # r2 \<Rightarrow>
                    if a = 0xC2 \<and> (b = 0x85 \<or> b = 0xA0) then Some (drop 2 s)
                    else (case r2 of
                            [] \<Rightarrow> None
                          | c # r3 \<Rightarrow>
                              if (a = 0xE1 \<and> b = 0x9A \<and> c = 0x80)
                                 \<or> (a = 0xE2 \<and> b = 0x80 \<and> (0x80 \<le> c \<and> c \<le> 0x8A \<or> c = 0xA8 \<or> c = 0xA9 \<or> c = 0xAF))
                                 \<or> (a = 0xE2 \<and> b = 0x81 \<and> c = 0x9F)
                                 \<or> (a = 0xE3 \<and> b = 0x80 \<and> c = 0x80)
                              then Some (drop 3 s) else None)))"

definition stripSpaceRev :: "string \<Rightarrow> string option" where
  "stripSpaceRev s =
     (if s \<noteq> [] \<and> asciiSpace (hd s) then Some (drop 1 s)
      else if stripSpace (rev (take 2 s)) = Some [] \<and> length s \<ge> 2 then Some (drop 2 s)
      else if stripSpace (rev (take 3 s)) = Some [] \<and> length s \<ge> 3 then Some (drop 3 s)
      else None)"

function TrimLeft :: "string \<Rightarrow> string" where
  "TrimLeft s = (case stripSpace s of None \<Rightarrow> s | Some r \<Rightarrow> TrimLeft r)"
  by pat_completeness auto
termination
  by (relation "measure length")
     (auto simp: stripSpace_def split: list.splits if_splits)

function TrimRightRev :: "string \<Rightarrow> string" where
  "TrimRightRev s = (case stripSpaceRev s of None \<Rightarrow> s | Some r \<Rightarrow> TrimRightRev r)"
  by pat_completeness auto
termination
  by (relation "measure length")
     (auto simp: stripSpaceRev_def split: list.splits if_splits)

declare TrimLeft.simps [simp del] TrimRightRev.simps [simp del]

definition TrimSpace :: "string \<Rightarrow> string" where
  "TrimSpace s = rev (TrimRightRev (rev (TrimLeft s)))"

section \<open>Errors, attributes and records\<close>

datatype err =
    NumError string numErr
  | ErrMessage string
  | ErrRow nat err
  | ErrGettingRows err
  | ErrUnsupportedQuery string string
  | ErrJoin "err list"

text \<open>
  \<^verbatim>\<open>s.client.QueryRows(ctx)\<close> returns rows and an error; the mappers distinguish no error,
  an error that is a \<^verbatim>\<open>sqlquery.ErrNullValueWarning\<close> (the rows are used) and any other
  error (the scrape is given up).
\<close>

datatype queryRows =
    QueryRowsOK "StringMap list"
  | QueryRowsNullValueWarning "StringMap list" err
  | QueryRowsFailed err

definition errors_Join :: "err list \<Rightarrow> err option" where
  "errors_Join errs = (if errs = [] then None else Some (ErrJoin errs))"

definition errList :: "err option \<Rightarrow> err list" where
  "errList e = (case e of None \<Rightarrow> [] | Some x \<Rightarrow> [x])"

datatype anyValue = ValueStr string | ValueInt int64

type_synonym attributes = "(string \<times> anyValue) list"

text \<open>\<^verbatim>\<open>PutStr\<close> and \<^verbatim>\<open>PutInt\<close> of \<^verbatim>\<open>pcommon.Map\<close>: update the key in place or append it.\<close>

fun Put :: "attributes \<Rightarrow> string \<Rightarrow> anyValue \<Rightarrow> attributes" where
  "Put [] k v = [(k, v)]"
| "Put (p # m) k v = (if fst p = k then (k, v) # m else p # Put m k v)"

record logRecord =
  Attributes :: attributes
  Body :: string

section \<open>Obfuscation of XML plans\<close>

text \<open>
  \<^verbatim>\<open>encoding/xml\<close> is used through its tokens. The decoder of a string yields the tokens
  read before the first error, and that error (\<open>None\<close> for the error whose message is
  \<^verbatim>\<open>EOF\<close>). The encoder has a state; encoding a token and flushing may fail. The SQL
  obfuscator returns a text and an error.
\<close>

type_synonym xmlName = "string \<times> string"

datatype token =
    StartElement xmlName "(xmlName \<times> string) list"
  | EndElement xmlName
  | CharData string
  | Comment string
  | ProcInst string string
  | Directive string

record 'e xmlLib =
  xmlTokens :: "string \<Rightarrow> token list \<times> err option"
  xmlNewEncoder :: 'e
  xmlEncodeToken :: "'e \<Rightarrow> token \<Rightarrow> err + 'e"
  xmlFlush :: "'e \<Rightarrow> err + string"

definition XMLPlanObfuscationAttrs :: "string list" where
  "XMLPlanObfuscationAttrs = [''StatementText'', ''ConstValue'', ''ScalarString'', ''ParameterCompiledValue'']"

definition obfuscateAttr :: "(string \<Rightarrow> string \<times> err option) \<Rightarrow> xmlName \<times> string \<Rightarrow> xmlName \<times> string" where
  "obfuscateAttr obfuscateSQL attr =
     foldl (\<lambda>a attrName. if snd (fst a) = attrName then (fst a, fst (obfuscateSQL (snd a))) else a)
       attr XMLPlanObfuscationAttrs"

definition obfuscateToken :: "(string \<Rightarrow> string \<times> err option) \<Rightarrow> token \<Rightarrow> token" where
  "obfuscateToken obfuscateSQL t =
     (case t of
        StartElement name attrs \<Rightarrow> StartElement name (map (obfuscateAttr obfuscateSQL) attrs)
      | CharData elem \<Rightarrow> CharData (TrimSpace elem)
      | _ \<Rightarrow> t)"

text \<open>
  The token loop: every token read is rewritten by \<open>f\<close> and encoded; the first error of
  the encoder or of the decoder ends the call; at \<^verbatim>\<open>EOF\<close> the encoder is flushed.
\<close>

fun tokenLoop :: "'e xmlLib \<Rightarrow> (token \<Rightarrow> token) \<Rightarrow> 'e \<Rightarrow> token list \<Rightarrow> err option \<Rightarrow> err + string" where
  "tokenLoop lib f enc [] None = xmlFlush lib enc"
| "tokenLoop lib f enc [] (Some e) = Inl e"
| "tokenLoop lib f enc (t # ts) stop =
     (case xmlEncodeToken lib enc (f t) of
        Inl e \<Rightarrow> Inl e
      | Inr enc' \<Rightarrow> tokenLoop lib f enc' ts stop)"

definition obfuscateXMLPlan :: "'e xmlLib \<Rightarrow> (string \<Rightarrow> string \<times> err option) \<Rightarrow> string \<Rightarrow> err + string" where
  "obfuscateXMLPlan lib obfuscateSQL rawPlan =
     (case xmlTokens lib rawPlan of
        (toks, stop) \<Rightarrow> tokenLoop lib (obfuscateToken obfuscateSQL) (xmlNewEncoder lib) toks stop)"

text \<open>
  The spec's "canonical XML serialization" of a plan: its tokens, decoded and encoded
  again as they are.
\<close>

definition reserializeXML :: "'e xmlLib \<Rightarrow> string \<Rightarrow> err + string" where
  "reserializeXML lib rawPlan =
     (case xmlTokens lib rawPlan of
        (toks, stop) \<Rightarrow> tokenLoop lib (\<lambda>t. t) (xmlNewEncoder lib) toks stop)"

definition targetedAttr :: "token \<Rightarrow> bool" where
  "targetedAttr t =
     (case t of
        StartElement name attrs \<Rightarrow> list_ex (\<lambda>a. snd (fst a) \<in> set XMLPlanObfuscationAttrs) attrs
      | _ \<Rightarrow> False)"

definition whitespaceOnly :: "token \<Rightarrow> bool" where
  "whitespaceOnly t = (case t of CharData d \<Rightarrow> d \<noteq> [] \<and> TrimSpace d = [] | _ \<Rightarrow> False)"

definition paddedCharData :: "token \<Rightarrow> bool" where
  "paddedCharData t = (case t of CharData d \<Rightarrow> TrimSpace d \<noteq> d | _ \<Rightarrow> False)"

text \<open>The value and error pair that the mappers read from \<^verbatim>\<open>obfuscateXMLPlan\<close>.\<close>

definition planResult :: "err + string \<Rightarrow> string \<times> err option" where
  "planResult r = (case r of Inl e \<Rightarrow> ([], Some e) | Inr p \<Rightarrow> (p, None))"

section \<open>The ranked mappers\<close>

record 'e env =
  sortInts :: "(nat \<Rightarrow> nat \<Rightarrow> bool) \<Rightarrow> nat list \<Rightarrow> nat list"
  sortInt64s :: "(int64 \<Rightarrow> int64 \<Rightarrow> bool) \<Rightarrow> int64 list \<Rightarrow> int64 list"
  obfuscateSQL :: "string \<Rightarrow> string \<times> err option"
  xmlLibrary :: "'e xmlLib"

definition rowsOf :: "queryRows \<Rightarrow> StringMap list" where
  "rowsOf q = (case q of QueryRowsOK rows \<Rightarrow> rows | QueryRowsNullValueWarning rows e \<Rightarrow> rows | QueryRowsFailed e \<Rightarrow> [])"

text \<open>
  The first loop of the int64 mappers: the elapsed time of each row, in milliseconds,
  goes through \<^verbatim>\<open>cacheAndDiff\<close>; the slot of a row keeps its zero unless the key was
  cached and the difference is positive. The parse errors are returned apart: one
  revision only logs them, the other appends them to its errors.
\<close>

fun elapsedLoop :: "int64 lru option \<Rightarrow> StringMap list \<Rightarrow> int64 list \<times> err list \<times> int64 lru option" where
  "elapsedLoop cache [] = ([], [], cache)"
| "elapsedLoop cache (row # rows) =
     (let queryHashVal = EncodeToString (row_get row ''query_hash'');
          queryPlanHashVal = EncodeToString (row_get row ''query_plan_hash'')
      in case ParseInt (row_get row ''total_elapsed_time'') of
           (elapsedTime, Some e) \<Rightarrow>
             (case elapsedLoop cache rows of
                (ds, errs, cache') \<Rightarrow>
                  (0 # ds, NumError (row_get row ''total_elapsed_time'') e # errs, cache'))
         | (elapsedTime, None) \<Rightarrow>
             (case cacheAndDiff cache queryHashVal queryPlanHashVal ''total_elapsed_time''
                     (int64_quo elapsedTime 1000) of
                (cached, diff, cache1) \<Rightarrow>
                  (case elapsedLoop cache1 rows of
                     (ds, errs, cache') \<Rightarrow>
                       ((if cached \<and> 0 <s diff then diff else 0) # ds, errs, cache'))))"

text \<open>
  The first loop of the float64 revision (scraper.go:1113): the plan component of the
  key is read from the column \<^verbatim>\<open>query_plan_handle\<close>. \<^verbatim>\<open>strconv.ParseFloat\<close> and the
  conversion \<^verbatim>\<open>int64(diff)\<close> are parameters.
\<close>

fun elapsedLoop_f64 ::
  "(string \<Rightarrow> 'a \<times> numErr option) \<Rightarrow> ('a \<Rightarrow> int64) \<Rightarrow> 'a lru option \<Rightarrow> StringMap list
     \<Rightarrow> int64 list \<times> ('a::{zero,minus,ord}) lru option" where
  "elapsedLoop_f64 parseFloat toInt64 cache [] = ([], cache)"
| "elapsedLoop_f64 parseFloat toInt64 cache (row # rows) =
     (let queryHashVal = EncodeToString (row_get row ''query_hash'');
          queryPlanHashVal = EncodeToString (row_get row ''query_plan_handle'')
      in case parseFloat (row_get row ''total_elapsed_time'') of
           (elapsedTime, Some e) \<Rightarrow>
             (case elapsedLoop_f64 parseFloat toInt64 cache rows of
                (ds, cache') \<Rightarrow> (0 # ds, cache'))
         | (elapsedTime, None) \<Rightarrow>
             (case cacheAndDiff_f64 cache queryHashVal queryPlanHashVal ''total_elapsed_time'' elapsedTime of
                (cached, diff, cache1) \<Rightarrow>
                  (case elapsedLoop_f64 parseFloat toInt64 cache1 rows of
                     (ds, cache') \<Rightarrow>
                       ((if cached \<and> diff > 0 then toInt64 diff else 0) # ds, cache'))))"

text \<open>
  The seven secondary counter columns, in the order the mappers handle them. The first
  four call \<^verbatim>\<open>cacheAndDiff\<close> whether or not the column parsed (with the value
  \<^verbatim>\<open>ParseInt\<close> returned); the last three only when it parsed. \<^verbatim>\<open>total_worker_time\<close> is
  divided by 1000 first.
\<close>

datatype callRule = CallAlways | CallIfParsed

definition counterColumns :: "(string \<times> callRule \<times> bool) list" where
  "counterColumns =
     [(''total_rows'', CallAlways, False),
      (''total_logical_reads'', CallAlways, False),
      (''total_logical_writes'', CallAlways, False),
      (''total_physical_reads'', CallAlways, False),
      (''execution_count'', CallIfParsed, False),
      (''total_worker_time'', CallIfParsed, True),
      (''total_grant_kb'', CallIfParsed, False)]"

text \<open>
  One counter column of one row. \<open>positiveOnly\<close> is the guard \<^verbatim>\<open>cached && diff > 0\<close>,
  otherwise the guard is \<^verbatim>\<open>cached\<close>; \<open>wrapAll\<close> says that every parse error is wrapped
  as \<^verbatim>\<open>row %d: %w\<close>, otherwise only those of the first four columns are; \<open>outName\<close>
  names the attribute or data point written.
\<close>

definition counterBlock ::
  "bool \<Rightarrow> bool \<Rightarrow> (string \<Rightarrow> string) \<Rightarrow> nat \<Rightarrow> string \<Rightarrow> string \<Rightarrow> StringMap
     \<Rightarrow> attributes \<times> err list \<times> int64 lru option \<Rightarrow> string \<times> callRule \<times> bool
     \<Rightarrow> attributes \<times> err list \<times> int64 lru option" where
  "counterBlock positiveOnly wrapAll outName i queryHashVal queryPlanHashVal row st col =
     (case st of (attrs, errs, cache) \<Rightarrow>
      case col of (column, rule, millis) \<Rightarrow>
      case ParseInt (row_get row column) of (parsed, e) \<Rightarrow>
        (let val = (if millis then int64_quo parsed 1000 else parsed);
             errs' = (case e of
                        None \<Rightarrow> errs
                      | Some ne \<Rightarrow>
                          errs @ [if wrapAll \<or> rule = CallAlways
                                  then ErrRow i (NumError (row_get row column) ne)
                                  else NumError (row_get row column) ne])
         in if rule = CallIfParsed \<and> e \<noteq> None then (attrs, errs', cache)
            else (case cacheAndDiff cache queryHashVal queryPlanHashVal column val of
                    (cached, diff, cache') \<Rightarrow>
                      (if cached \<and> (if positiveOnly then 0 <s diff else True)
                       then Put attrs (outName column) (ValueInt diff) else attrs,
                       errs', cache'))))"

text \<open>Revision A (scraper.go:392-487): the body of the second loop.\<close>

definition baseAttrs_A :: "StringMap \<Rightarrow> int64 \<Rightarrow> attributes" where
  "baseAttrs_A row d =
     Put (Put (Put (Put (Put []
       ''computer_name'' (ValueStr (row_get row ''computer_name'')))
       ''sql_instance'' (ValueStr (row_get row ''sql_instance'')))
       ''query_hash'' (ValueStr (EncodeToString (row_get row ''query_hash''))))
       ''query_plan_hash'' (ValueStr (EncodeToString (row_get row ''query_plan_hash''))))
       ''total_elapsed_time'' (ValueInt d)"

definition recordRow_A ::
  "'e env \<Rightarrow> nat \<Rightarrow> int64 lru option \<Rightarrow> StringMap \<Rightarrow> int64 \<Rightarrow> logRecord \<times> err list \<times> int64 lru option" where
  "recordRow_A env i cache row d =
     (let queryHashVal = EncodeToString (row_get row ''query_hash'');
          queryPlanHashVal = EncodeToString (row_get row ''query_plan_hash'')
      in case foldl (counterBlock True False (\<lambda>c. c) i queryHashVal queryPlanHashVal row)
                (baseAttrs_A row d, [], cache) counterColumns of
           (attrs, errs, cache') \<Rightarrow>
      case obfuscateSQL env (row_get row ''text'') of (obfuscatedSQL, e1) \<Rightarrow>
      case planResult (obfuscateXMLPlan (xmlLibrary env) (obfuscateSQL env) (row_get row ''query_plan'')) of
           (obfuscatedQueryPlan, e2) \<Rightarrow>
        (\<lparr>Attributes = Put (Put attrs ''query_text'' (ValueStr obfuscatedSQL))
                           ''normalized_query_plan'' (ValueStr obfuscatedQueryPlan),
          Body = []\<rparr>,
         errs @ errList e1 @ errList e2, cache'))"

text \<open>Revision C (part_004:544-648): the body of the second loop.\<close>

definition baseAttrs_C :: "StringMap \<Rightarrow> int64 \<Rightarrow> attributes" where
  "baseAttrs_C row d =
     Put (Put (Put (Put (Put []
       ''computer_name'' (ValueStr (row_get row ''computer_name'')))
       ''sql_instance'' (ValueStr (row_get row ''sql_instance'')))
       ''db.query_hash'' (ValueStr (EncodeToString (row_get row ''query_hash''))))
       ''db.query_plan_hash'' (ValueStr (EncodeToString (row_get row ''query_plan_hash''))))
       ''db.total_elapsed_time'' (ValueInt d)"

definition recordRow_C ::
  "'e env \<Rightarrow> nat \<Rightarrow> int64 lru option \<Rightarrow> StringMap \<Rightarrow> int64 \<Rightarrow> logRecord \<times> err list \<times> int64 lru option" where
  "recordRow_C env i cache row d =
     (let queryHashVal = EncodeToString (row_get row ''query_hash'');
          queryPlanHashVal = EncodeToString (row_get row ''query_plan_hash'')
      in case foldl (counterBlock False True (\<lambda>c. ''db.'' @ c) i queryHashVal queryPlanHashVal row)
                (baseAttrs_C row d, [], cache) counterColumns of
           (attrs, errs, cache') \<Rightarrow>
      case obfuscateSQL env (row_get row ''query_text'') of (obfuscatedSQL, e1) \<Rightarrow>
      case planResult (obfuscateXMLPlan (xmlLibrary env) (obfuscateSQL env) (row_get row ''query_plan'')) of
           (obfuscatedQueryPlan, e2) \<Rightarrow>
        (\<lparr>Attributes = Put (Put attrs ''db.query_text'' (ValueStr obfuscatedSQL))
                           ''db.query_plan'' (ValueStr obfuscatedQueryPlan),
          Body = []\<rparr>,
         errs @ errList e1 @ errList e2, cache'))"

text \<open>
  Revision C, \<^verbatim>\<open>recordDatabaseQueryMetrics\<close> (part_004:396-474): the resource attributes
  and the data points of one row, each data point named after its
  \<^verbatim>\<open>Record...DataPoint\<close> method.
\<close>

record resourceMetrics =
  Resource :: attributes
  DataPoints :: attributes

definition metricOf :: "string \<Rightarrow> string" where
  "metricOf column =
     (if column = ''total_rows'' then ''SqlserverQueryReturnedRows''
      else if column = ''total_logical_reads'' then ''SqlserverQueryTotalLogicalReads''
      else if column = ''total_logical_writes'' then ''SqlserverQueryTotalLogicalWrites''
      else if column = ''total_physical_reads'' then ''SqlserverQueryTotalPhysicalReads''
      else if column = ''execution_count'' then ''SqlserverQueryExecutionCount''
      else if column = ''total_worker_time'' then ''SqlserverQueryTotalWorkerTime''
      else ''SqlserverQueryTotalGrantKb'')"

definition metricsRow_C ::
  "nat \<Rightarrow> int64 lru option \<Rightarrow> StringMap \<Rightarrow> int64 \<Rightarrow> resourceMetrics \<times> err list \<times> int64 lru option" where
  "metricsRow_C i cache row d =
     (let queryHashVal = EncodeToString (row_get row ''query_hash'');
          queryPlanHashVal = EncodeToString (row_get row ''query_plan_hash'')
      in case foldl (counterBlock True False metricOf i queryHashVal queryPlanHashVal row)
                (Put [] ''SqlserverQueryTotalElapsedTime'' (ValueInt d), [], cache) counterColumns of
           (points, errs, cache') \<Rightarrow>
        (\<lparr>Resource = Put (Put (Put (Put []
             ''sqlserver.computer_name'' (ValueStr (row_get row ''computer_name'')))
             ''sqlserver.instance_name'' (ValueStr (row_get row ''sql_instance'')))
             ''sqlserver.query_hash'' (ValueStr queryHashVal))
             ''sqlserver.query_plan_hash'' (ValueStr queryPlanHashVal),
          DataPoints = points\<rparr>,
         errs, cache'))"

text \<open>
  The second loop over the sorted rows and their sorted differences; \<open>i\<close> is the index
  of the head. \<open>topLoop\<close> is the loop of revision A and of the metrics mapper:
  \<^verbatim>\<open>if i >= int(topQueryCount) { break }\<close>, then
  \<^verbatim>\<open>if totalElapsedTimeDiffs[i] == 0 { continue }\<close>. \<open>topLoop_C\<close> is the loop of
  \<^verbatim>\<open>recordDatabaseQueryTextAndPlan\<close> in revision C:
  \<^verbatim>\<open>if i > int(topQueryCount) { continue }\<close> and nothing else. \<^verbatim>\<open>topQueryCount\<close> is a
  \<^verbatim>\<open>uint\<close>, read as a signed 64-bit \<^verbatim>\<open>int\<close>.
\<close>

fun topLoop ::
  "(nat \<Rightarrow> int64 lru option \<Rightarrow> StringMap \<Rightarrow> int64 \<Rightarrow> 'r \<times> err list \<times> int64 lru option)
     \<Rightarrow> 64 word \<Rightarrow> nat \<Rightarrow> int64 lru option \<Rightarrow> (StringMap \<times> int64) list
     \<Rightarrow> 'r list \<times> err list \<times> int64 lru option" where
  "topLoop body topQueryCount i cache [] = ([], [], cache)"
| "topLoop body topQueryCount i cache ((row, d) # rest) =
     (if sint topQueryCount \<le> int i then ([], [], cache)
      else if d = 0 then topLoop body topQueryCount (Suc i) cache rest
      else (case body i cache row d of
              (r, errs, cache1) \<Rightarrow>
                (case topLoop body topQueryCount (Suc i) cache1 rest of
                   (rs, errs', cache2) \<Rightarrow> (r # rs, errs @ errs', cache2))))"

fun topLoop_C ::
  "(nat \<Rightarrow> int64 lru option \<Rightarrow> StringMap \<Rightarrow> int64 \<Rightarrow> 'r \<times> err list \<times> int64 lru option)
     \<Rightarrow> 64 word \<Rightarrow> nat \<Rightarrow> int64 lru option \<Rightarrow> (StringMap \<times> int64) list
     \<Rightarrow> 'r list \<times> err list \<times> int64 lru option" where
  "topLoop_C body topQueryCount i cache [] = ([], [], cache)"
| "topLoop_C body topQueryCount i cache ((row, d) # rest) =
     (if sint topQueryCount < int i then topLoop_C body topQueryCount (Suc i) cache rest
      else (case body i cache row d of
              (r, errs, cache1) \<Rightarrow>
                (case topLoop_C body topQueryCount (Suc i) cache1 rest of
                   (rs, errs', cache2) \<Rightarrow> (r # rs, errs @ errs', cache2))))"

text \<open>
  The mappers. The result is \<open>None\<close> when the run panics; otherwise the records, the
  returned error and the cache. A failed query returns no records and the wrapped
  error. The two calls of \<^verbatim>\<open>sort.Slice\<close> permute their slices in place, so the sorted
  differences are as many as the rows.
\<close>

definition recordDatabaseQueryTextAndPlan_A ::
  "'e env \<Rightarrow> int64 lru option \<Rightarrow> queryRows \<Rightarrow> 64 word
     \<Rightarrow> (logRecord list \<times> err option \<times> int64 lru option) option" where
  "recordDatabaseQueryTextAndPlan_A env cache q topQueryCount =
     (case q of
        QueryRowsFailed e \<Rightarrow> Some ([], Some (ErrGettingRows e), cache)
      | _ \<Rightarrow>
         (case elapsedLoop cache (rowsOf q) of (totalElapsedTimeDiffs, parseErrs, cache1) \<Rightarrow>
          case sortRows (sortInts env) (rowsOf q) totalElapsedTimeDiffs of
            None \<Rightarrow> None
          | Some rows \<Rightarrow>
             (case topLoop (recordRow_A env) topQueryCount 0 cache1
                     (zip rows (sortInt64s env (\<lambda>a b. b <s a) totalElapsedTimeDiffs)) of
                (logs, errs, cache2) \<Rightarrow> Some (logs, errors_Join errs, cache2))))"

definition recordDatabaseQueryTextAndPlan_C ::
  "'e env \<Rightarrow> int64 lru option \<Rightarrow> queryRows \<Rightarrow> 64 word
     \<Rightarrow> (logRecord list \<times> err option \<times> int64 lru option) option" where
  "recordDatabaseQueryTextAndPlan_C env cache q topQueryCount =
     (case q of
        QueryRowsFailed e \<Rightarrow> Some ([], Some (ErrGettingRows e), cache)
      | _ \<Rightarrow>
         (case elapsedLoop cache (rowsOf q) of (totalElapsedTimeDiffs, parseErrs, cache1) \<Rightarrow>
          case sortRows (sortInts env) (rowsOf q) totalElapsedTimeDiffs of
            None \<Rightarrow> None
          | Some rows \<Rightarrow>
             (case topLoop_C (recordRow_C env) topQueryCount 0 cache1
                     (zip rows (sortInt64s env (\<lambda>a b. b <s a) totalElapsedTimeDiffs)) of
                (logs, errs, cache2) \<Rightarrow> Some (logs, errors_Join (parseErrs @ errs), cache2))))"

definition recordDatabaseQueryMetrics_C ::
  "'e env \<Rightarrow> int64 lru option \<Rightarrow> queryRows \<Rightarrow> 64 word
     \<Rightarrow> (resourceMetrics list \<times> err option \<times> int64 lru option) option" where
  "recordDatabaseQueryMetrics_C env cache q topQueryCount =
     (case q of
        QueryRowsFailed e \<Rightarrow> Some ([], Some (ErrGettingRows e), cache)
      | _ \<Rightarrow>
         (case elapsedLoop cache (rowsOf q) of (totalElapsedTimeDiffs, parseErrs, cache1) \<Rightarrow>
          case sortRows (sortInts env) (rowsOf q) totalElapsedTimeDiffs of
            None \<Rightarrow> None
          | Some rows \<Rightarrow>
             (case topLoop metricsRow_C topQueryCount 0 cache1
                     (zip rows (sortInt64s env (\<lambda>a b. b <s a) totalElapsedTimeDiffs)) of
                (emitted, errs, cache2) \<Rightarrow> Some (emitted, errors_Join (parseErrs @ errs), cache2))))"

section \<open>Query samples\<close>

text \<open>
  \<^verbatim>\<open>getWaitCategory\<close>. The tables \<^verbatim>\<open>detailedWaitTypes\<close> and \<^verbatim>\<open>waitTypes\<close> are declared
  outside the files at hand and are parameters.
\<close>

definition anyOf :: "string \<Rightarrow> (string \<Rightarrow> string \<Rightarrow> bool) \<Rightarrow> string list \<Rightarrow> bool" where
  "anyOf s f vals = (if length vals = 0 then False else list_ex (\<lambda>v. f s v) vals)"

definition getWaitCategory :: "(string \<rightharpoonup> nat) \<Rightarrow> (nat \<Rightarrow> string) \<Rightarrow> string \<Rightarrow> nat \<times> string" where
  "getWaitCategory detailedWaitTypes waitTypes s =
     (case detailedWaitTypes s of
        Some code \<Rightarrow> (code, waitTypes code)
      | None \<Rightarrow>
          if HasPrefix s ''LOCK_M_'' then (3, ''Lock'')
          else if HasPrefix s ''LATCH_'' then (4, ''Latch'')
          else if HasPrefix s ''PAGELATCH_'' then (5, ''Buffer Latch'')
          else if HasPrefix s ''PAGEIOLATCH_'' then (6, ''Buffer IO'')
          else if anyOf s HasPrefix [''CLR'', ''SQLCLR''] then (8, ''SQL CLR'')
          else if HasPrefix s ''DBMIRROR'' then (9, ''Mirroring'')
          else if anyOf s HasPrefix [''XACT'', ''DTC'', ''TRAN_MARKLATCH_'', ''MSQL_XACT_''] then (10, ''Transaction'')
          else if HasPrefix s ''SLEEP_'' then (11, ''Idle'')
          else if HasPrefix s ''PREEMPTIVE_'' then (12, ''Preemptive'')
          else if HasPrefix s ''BROKER_'' \<and> s \<noteq> ''BROKER_RECEIVE_WAITFOR'' then (13, ''Service Broker'')
          else if anyOf s HasPrefix [''HT'', ''BMP'', ''BP''] then (16, ''Parallelism'')
          else if anyOf s HasPrefix [''SE_REPL_'', ''REPL_'', ''PWAIT_HADR_'']
                  \<or> (HasPrefix s ''HADR_'' \<and> s \<noteq> ''HADR_THROTTLE_LOG_RATE_GOVERNOR'') then (22, ''Replication'')
          else if HasPrefix s ''RBIO_RG_'' then (23, ''Log Rate Governor'')
          else (0, ''Unknown''))"

text \<open>
  The prefix rules in the order the spec states them (section 4.5.6), for a wait type
  that is not in the detailed table. Each bucket carries the code the source gives it.
\<close>

definition classify_spec :: "string \<Rightarrow> nat \<times> string" where
  "classify_spec s =
     (if HasPrefix s ''LOCK_M_'' then (3, ''Lock'')
      else if HasPrefix s ''PAGELATCH_'' then (5, ''Buffer Latch'')
      else if HasPrefix s ''PAGEIOLATCH_'' then (6, ''Buffer IO'')
      else if HasPrefix s ''LATCH_'' then (4, ''Latch'')
      else if HasPrefix s ''CLR'' \<or> HasPrefix s ''SQLCLR'' then (8, ''SQL CLR'')
      else if HasPrefix s ''DBMIRROR'' then (9, ''Mirroring'')
      else if HasPrefix s ''XACT'' \<or> HasPrefix s ''DTC'' \<or> HasPrefix s ''TRAN_MARKLATCH_''
              \<or> HasPrefix s ''MSQL_XACT_'' then (10, ''Transaction'')
      else if HasPrefix s ''SLEEP_'' then (11, ''Idle'')
      else if HasPrefix s ''PREEMPTIVE_'' then (12, ''Preemptive'')
      else if HasPrefix s ''BROKER_'' \<and> s \<noteq> ''BROKER_RECEIVE_WAITFOR'' then (13, ''Service Broker'')
      else if HasPrefix s ''HT'' \<or> HasPrefix s ''BMP'' \<or> HasPrefix s ''BP'' then (16, ''Parallelism'')
      else if HasPrefix s ''SE_REPL_'' \<or> HasPrefix s ''REPL_'' \<or> HasPrefix s ''PWAIT_HADR_''
              \<or> (HasPrefix s ''HADR_'' \<and> s \<noteq> ''HADR_THROTTLE_LOG_RATE_GOVERNOR'') then (22, ''Replication'')
      else if HasPrefix s ''RBIO_RG_'' then (23, ''Log Rate Governor'')
      else (0, ''Unknown''))"

text \<open>
  \<^verbatim>\<open>recordDatabaseSampleQuery\<close> (part_004:654-839; scraper.go:1249-1439 has the same
  control flow). \<^verbatim>\<open>strconv.Atoi\<close> hands back a value also when it fails, and the record
  takes it. The two float attributes (\<^verbatim>\<open>percent_complete\<close> and
  \<^verbatim>\<open>estimated_completion_time\<close>) are left out of the record.
\<close>

definition atoi :: "string \<Rightarrow> int64" where
  "atoi s = fst (ParseInt s)"

definition sampleRecord ::
  "(string \<Rightarrow> string \<times> err option) \<Rightarrow> (string \<rightharpoonup> nat) \<Rightarrow> (nat \<Rightarrow> string) \<Rightarrow> StringMap \<Rightarrow> logRecord" where
  "sampleRecord obfuscate detailedWaitTypes waitTypes row =
     \<lparr>Attributes =
        foldl (\<lambda>m kv. Put m (fst kv) (snd kv)) []
          [(''db_name'', ValueStr (row_get row ''db_name'')),
           (''client_address'', ValueStr (row_get row ''client_address'')),
           (''client_port'', ValueInt (if row_get row ''client_port'' \<noteq> [] then atoi (row_get row ''client_port'') else 0)),
           (''query_start'', ValueStr (row_get row ''query_start'')),
           (''session_id'', ValueInt (atoi (row_get row ''session_id''))),
           (''session_status'', ValueStr (row_get row ''session_status'')),
           (''host_name'', ValueStr (row_get row ''host_name'')),
           (''command'', ValueStr (row_get row ''command'')),
           (''statement_text'', ValueStr (fst (obfuscate (row_get row ''statement_text'')))),
           (''blocking_session_id'', ValueInt (atoi (row_get row ''blocking_session_id''))),
           (''wait_type'', ValueStr (row_get row ''wait_type'')),
           (''wait_time'', ValueInt (atoi (row_get row ''wait_time''))),
           (''wait_resource'', ValueStr (row_get row ''wait_resource'')),
           (''open_transaction_count'', ValueInt (atoi (row_get row ''open_transaction_count''))),
           (''transaction_id'', ValueInt (atoi (row_get row ''transaction_id''))),
           (''cpu_time'', ValueInt (atoi (row_get row ''cpu_time''))),
           (''total_elapsed_time'', ValueInt (atoi (row_get row ''total_elapsed_time''))),
           (''reads'', ValueInt (atoi (row_get row ''reads''))),
           (''writes'', ValueInt (atoi (row_get row ''writes''))),
           (''logical_reads'', ValueInt (atoi (row_get row ''logical_reads''))),
           (''transaction_isolation_level'', ValueInt (atoi (row_get row ''transaction_isolation_level''))),
           (''lock_timeout'', ValueInt (if row_get row ''lock_timeout'' \<noteq> [] then atoi (row_get row ''lock_timeout'') else 0)),
           (''deadlock_priority'', ValueInt (if row_get row ''deadlock_priority'' \<noteq> [] then atoi (row_get row ''deadlock_priority'') else 0)),
           (''row_count'', ValueInt (atoi (row_get row ''row_count''))),
           (''query_hash'', ValueStr (EncodeToString (row_get row ''query_hash''))),
           (''query_plan_hash'', ValueStr (EncodeToString (row_get row ''query_plan_hash''))),
           (''context_info'', ValueStr (EncodeToString (row_get row ''context_info''))),
           (''username'', ValueStr (row_get row ''username'')),
           (''wait_code'', ValueInt (word_of_nat (fst (getWaitCategory detailedWaitTypes waitTypes (row_get row ''wait_type''))))),
           (''wait_category'', ValueStr (snd (getWaitCategory detailedWaitTypes waitTypes (row_get row ''wait_type''))))],
      Body = ''sample''\<rparr>"

text \<open>
  The loop over the rows: a row whose key is not in the cache gets a record; a row
  whose key is in the cache gets none, and \<^verbatim>\<open>s.cache.Add(cacheKey, 1)\<close> runs in that
  branch. \<^verbatim>\<open>s.cache.Get\<close> on a nil cache panics (\<open>None\<close>).
\<close>

fun sampleLoop ::
  "(StringMap \<Rightarrow> logRecord) \<Rightarrow> int64 lru option \<Rightarrow> StringMap list
     \<Rightarrow> (logRecord list \<times> int64 lru option) option" where
  "sampleLoop mk cache [] = Some ([], cache)"
| "sampleLoop mk cache (row # rows) =
     (case cache of
        None \<Rightarrow> None
      | Some c \<Rightarrow>
          (let cacheKey = EncodeToString (row_get row ''query_hash'') @ ''-''
                            @ EncodeToString (row_get row ''query_plan_hash'')
           in case lru_Get c cacheKey of
                (None, c1) \<Rightarrow>
                  (case sampleLoop mk (Some c1) rows of
                     None \<Rightarrow> None
                   | Some (logs, cache') \<Rightarrow> Some (mk row # logs, cache'))
              | (Some v, c1) \<Rightarrow> sampleLoop mk (Some (lru_Add c1 cacheKey 1)) rows))"

definition recordDatabaseSampleQuery ::
  "(string \<Rightarrow> string \<times> err option) \<Rightarrow> (string \<rightharpoonup> nat) \<Rightarrow> (nat \<Rightarrow> string) \<Rightarrow> int64 lru option \<Rightarrow> queryRows
     \<Rightarrow> (logRecord list \<times> err option \<times> int64 lru option) option" where
  "recordDatabaseSampleQuery obfuscate detailedWaitTypes waitTypes cache q =
     (case q of
        QueryRowsFailed e \<Rightarrow> Some ([], Some (ErrGettingRows e), cache)
      | _ \<Rightarrow>
         (case sampleLoop (sampleRecord obfuscate detailedWaitTypes waitTypes) cache (rowsOf q) of
            None \<Rightarrow> None
          | Some (logs, cache') \<Rightarrow> Some (logs, errors_Join [], cache')))"

section \<open>Dispatch on the configured query\<close>

text \<open>
  The query catalog is a parameter: the functions that build the T-SQL text of each
  query kind. The three plain metric mappers are parameters too, each given by the
  error it returns and what \<^verbatim>\<open>s.mb.Emit()\<close> yields after it.
\<close>

record catalog =
  getSQLServerDatabaseIOQuery :: "string \<Rightarrow> string"
  getSQLServerPerformanceCounterQuery :: "string \<Rightarrow> string"
  getSQLServerPropertiesQuery :: "string \<Rightarrow> string"
  getSQLServerQueryMetricsQuery :: "string \<Rightarrow> 64 word \<Rightarrow> 64 word \<Rightarrow> string"
  getSQLServerQueryTextAndPlanQuery :: "string \<Rightarrow> 64 word \<Rightarrow> 64 word \<Rightarrow> string"
  getSQLServerQuerySamplesQuery :: string

record scraperHelper =
  sqlQuery :: string
  instanceName :: string
  maxQuerySampleCount :: "64 word"
  lookbackTime :: "64 word"
  topQueryCount :: "64 word"

record metricMappers =
  recordDatabaseIOMetrics :: "err option \<times> resourceMetrics list"
  recordDatabasePerfCounterMetrics :: "err option \<times> resourceMetrics list"
  recordDatabaseStatusMetrics :: "err option \<times> resourceMetrics list"

definition emitOrError :: "err option \<times> resourceMetrics list \<Rightarrow> resourceMetrics list \<times> err option" where
  "emitOrError r = (case fst r of Some e \<Rightarrow> ([], Some e) | None \<Rightarrow> (snd r, None))"

text \<open>Revision A (scraper.go:106-134).\<close>

definition ScrapeMetrics_A :: "catalog \<Rightarrow> metricMappers \<Rightarrow> scraperHelper \<Rightarrow> resourceMetrics list \<times> err option" where
  "ScrapeMetrics_A cat mm s =
     (if sqlQuery s = getSQLServerDatabaseIOQuery cat (instanceName s)
        then emitOrError (recordDatabaseIOMetrics mm)
      else if sqlQuery s = getSQLServerPerformanceCounterQuery cat (instanceName s)
        then emitOrError (recordDatabasePerfCounterMetrics mm)
      else if sqlQuery s = getSQLServerPropertiesQuery cat (instanceName s)
        then emitOrError (recordDatabaseStatusMetrics mm)
      else ([], Some (ErrUnsupportedQuery ''metrics'' (sqlQuery s))))"

definition ScrapeLogs_A ::
  "'e env \<Rightarrow> catalog \<Rightarrow> scraperHelper \<Rightarrow> int64 lru option \<Rightarrow> queryRows
     \<Rightarrow> (logRecord list \<times> err option \<times> int64 lru option) option" where
  "ScrapeLogs_A env cat s cache q =
     (if sqlQuery s = getSQLServerQueryTextAndPlanQuery cat (instanceName s) (maxQuerySampleCount s) (lookbackTime s)
        then recordDatabaseQueryTextAndPlan_A env cache q (topQueryCount s)
      else Some ([], Some (ErrUnsupportedQuery ''logs'' (sqlQuery s)), cache))"

text \<open>Revision C (part_004:103-136).\<close>

definition ScrapeMetrics_C ::
  "'e env \<Rightarrow> catalog \<Rightarrow> metricMappers \<Rightarrow> scraperHelper \<Rightarrow> int64 lru option \<Rightarrow> queryRows
     \<Rightarrow> (resourceMetrics list \<times> err option \<times> int64 lru option) option" where
  "ScrapeMetrics_C env cat mm s cache q =
     (if sqlQuery s = getSQLServerDatabaseIOQuery cat (instanceName s)
        then (case emitOrError (recordDatabaseIOMetrics mm) of (m, e) \<Rightarrow> Some (m, e, cache))
      else if sqlQuery s = getSQLServerPerformanceCounterQuery cat (instanceName s)
        then (case emitOrError (recordDatabasePerfCounterMetrics mm) of (m, e) \<Rightarrow> Some (m, e, cache))
      else if sqlQuery s = getSQLServerPropertiesQuery cat (instanceName s)
        then (case emitOrError (recordDatabaseStatusMetrics mm) of (m, e) \<Rightarrow> Some (m, e, cache))
      else if sqlQuery s = getSQLServerQueryMetricsQuery cat (instanceName s) (maxQuerySampleCount s) (lookbackTime s)
        then (case recordDatabaseQueryMetrics_C env cache q (topQueryCount s) of
                None \<Rightarrow> None
              | Some (emitted, e, cache') \<Rightarrow>
                  (case emitOrError (e, emitted) of (m, e') \<Rightarrow> Some (m, e', cache')))
      else Some ([], Some (ErrUnsupportedQuery ''metrics'' (sqlQuery s)), cache))"

definition ScrapeLogs_C ::
  "'e env \<Rightarrow> catalog \<Rightarrow> (string \<rightharpoonup> nat) \<Rightarrow> (nat \<Rightarrow> string) \<Rightarrow> scraperHelper \<Rightarrow> int64 lru option \<Rightarrow> queryRows
     \<Rightarrow> (logRecord list \<times> err option \<times> int64 lru option) option" where
  "ScrapeLogs_C env cat detailedWaitTypes waitTypes s cache q =
     (if sqlQuery s = getSQLServerQueryTextAndPlanQuery cat (instanceName s) (maxQuerySampleCount s) (lookbackTime s)
        then recordDatabaseQueryTextAndPlan_C env cache q (topQueryCount s)
      else if sqlQuery s = getSQLServerQuerySamplesQuery cat
        then recordDatabaseSampleQuery (obfuscateSQL env) detailedWaitTypes waitTypes cache q
      else Some ([], Some (ErrUnsupportedQuery ''logs'' (sqlQuery s)), cache))"

text \<open>
  The caches a scraper can hold: a new cache of positive size, and whatever
  \<^verbatim>\<open>cacheAndDiff\<close> makes of such a cache.
\<close>

inductive reachable :: "int64 lru \<Rightarrow> bool" where
  reachable_new: "0 < n \<Longrightarrow> reachable (lru_New n)"
| reachable_step:
    "reachable c \<Longrightarrow> cacheAndDiff (Some c) qh qph col v = (cached, diff, Some c') \<Longrightarrow> reachable c'"

text \<open>A sequence of calls, each given by its four arguments; the results come back in order.\<close>

fun cacheAndDiffs ::
  "int64 lru option \<Rightarrow> (string \<times> string \<times> string \<times> int64) list \<Rightarrow> (bool \<times> int64) list \<times> int64 lru option" where
  "cacheAndDiffs cache [] = ([], cache)"
| "cacheAndDiffs cache ((qh, qph, col, v) # calls) =
     (case cacheAndDiff cache qh qph col v of
        (cached, diff, cache1) \<Rightarrow>
          (case cacheAndDiffs cache1 calls of
             (results, cache2) \<Rightarrow> ((cached, diff) # results, cache2)))"

section \<open>Sample collaborators\<close>

text \<open>
  Concrete collaborators, for running the definitions on concrete inputs: an obfuscator
  that replaces digits, an XML library that knows three small documents and prints
  tokens without escaping, the insertion sort as \<^verbatim>\<open>sort.Slice\<close>, and a catalog of short
  query texts.
\<close>

definition sampleObfuscate :: "string \<Rightarrow> string \<times> err option" where
  "sampleObfuscate q = (map (\<lambda>c. if isDigit c then CHR ''?'' else c) q, None)"

definition printAttr :: "xmlName \<times> string \<Rightarrow> string" where
  "printAttr a = '' '' @ snd (fst a) @ ''='' @ [CHR 0x22] @ snd a @ [CHR 0x22]"

definition printToken :: "token \<Rightarrow> string" where
  "printToken t =
     (case t of
        StartElement name attrs \<Rightarrow> ''<'' @ snd name @ concat (map printAttr attrs) @ ''>''
      | EndElement name \<Rightarrow> ''</'' @ snd name @ ''>''
      | CharData d \<Rightarrow> d
      | Comment d \<Rightarrow> ''<!--'' @ d @ ''-->''
      | ProcInst target inst \<Rightarrow> ''<?'' @ target @ '' '' @ inst @ ''?>''
      | Directive d \<Rightarrow> ''<!'' @ d @ ''>'')"

definition sampleTokens :: "string \<Rightarrow> token list \<times> err option" where
  "sampleTokens doc =
     (if doc = ''<a>x</a>''
        then ([StartElement ([], ''a'') [], CharData ''x'', EndElement ([], ''a'')], None)
      else if doc = ''<a> x </a>''
        then ([StartElement ([], ''a'') [], CharData '' x '', EndElement ([], ''a'')], None)
      else if doc = ''<a ConstValue='' @ [CHR 0x22] @ ''(42)'' @ [CHR 0x22] @ ''></a>''
        then ([StartElement ([], ''a'') [(([], ''ConstValue''), ''(42)'')], EndElement ([], ''a'')], None)
      else ([], Some (ErrMessage ''XML syntax error'')))"

definition sampleXml :: "string xmlLib" where
  "sampleXml =
     \<lparr>xmlTokens = sampleTokens,
      xmlNewEncoder = [],
      xmlEncodeToken = (\<lambda>out t. Inr (out @ printToken t)),
      xmlFlush = (\<lambda>out. Inr out)\<rparr>"

definition sampleEnv :: "string env" where
  "sampleEnv =
     \<lparr>sortInts = insertionSort_func,
      sortInt64s = insertionSort_func,
      obfuscateSQL = sampleObfuscate,
      xmlLibrary = sampleXml\<rparr>"

definition sampleCatalog :: catalog where
  "sampleCatalog =
     \<lparr>getSQLServerDatabaseIOQuery = (\<lambda>instance. ''io:'' @ instance),
      getSQLServerPerformanceCounterQuery = (\<lambda>instance. ''perf:'' @ instance),
      getSQLServerPropertiesQuery = (\<lambda>instance. ''props:'' @ instance),
      getSQLServerQueryMetricsQuery = (\<lambda>instance maxCount lookback. ''query-metrics:'' @ instance),
      getSQLServerQueryTextAndPlanQuery = (\<lambda>instance maxCount lookback. ''text-and-plan:'' @ instance),
      getSQLServerQuerySamplesQuery = ''samples''\<rparr>"

definition sampleHelper :: scraperHelper where
  "sampleHelper =
     \<lparr>sqlQuery = ''Invalid SQL query'', instanceName = ''I'', maxQuerySampleCount = 1000,
      lookbackTime = 60, topQueryCount = 200\<rparr>"

definition sampleMappers :: metricMappers where
  "sampleMappers =
     \<lparr>recordDatabaseIOMetrics = (None, []),
      recordDatabasePerfCounterMetrics = (None, []),
      recordDatabaseStatusMetrics = (None, [])\<rparr>"

definition sampleRow :: StringMap where
  "sampleRow =
     [(''computer_name'', ''H''), (''sql_instance'', ''I''),
      (''query_hash'', ''q''), (''query_plan_hash'', ''p''), (''query_plan_handle'', ''h''),
      (''total_elapsed_time'', ''5000''), (''total_rows'', ''5''),
      (''total_logical_reads'', ''9''), (''total_logical_writes'', ''0''),
      (''total_physical_reads'', ''0''), (''execution_count'', ''7''),
      (''total_worker_time'', ''3000''), (''total_grant_kb'', ''0''),
      (''text'', ''SELECT 1''), (''query_text'', ''SELECT 1''), (''query_plan'', ''<a>x</a>'')]"

text \<open>A cache that has seen the elapsed time and the row count of \<open>sampleRow\<close> before.\<close>

definition sampleCache :: "int64 lru" where
  "sampleCache = \<lparr>lru_size = 8, lru_items = [(''71-70-total_rows'', 5), (''71-70-total_elapsed_time'', 1)]\<rparr>"

text \<open>
  Stand-ins for \<^verbatim>\<open>strconv.ParseFloat\<close> and \<^verbatim>\<open>int64(x)\<close> on reals: the first reads decimal
  integers, the second truncates towards zero.
\<close>

definition sampleParseFloat :: "string \<Rightarrow> real \<times> numErr option" where
  "sampleParseFloat s = (case ParseInt s of (v, None) \<Rightarrow> (real_of_int (sint v), None) | (v, Some e) \<Rightarrow> (0, Some e))"

definition sampleToInt64 :: "real \<Rightarrow> int64" where
  "sampleToInt64 x = word_of_int (if x < 0 then - \<lfloor>- x\<rfloor> else \<lfloor>x\<rfloor>)"

text \<open>The invariant of those caches: a positive size and no negative value.\<close>

definition nonneg_cache :: "int64 lru \<Rightarrow> bool" where
  "nonneg_cache c = (0 < lru_size c \<and> list_all (\<lambda>p. 0 \<le>s snd p) (lru_items c))"

section \<open>Properties of the cache\<close>

lemma map_of_lru_touch:
  "map_of (lru_touch k v its) k' = (if k' = k then Some v else map_of its k')"
proof -
  have "map_of (filter (\<lambda>p. fst p \<noteq> k) its) k' = map_of its k'" if "k' \<noteq> k"
    using that by (induction its) auto
  then show ?thesis by (simp add: lru_touch_def)
qed

lemma lru_Get_None: "lru_Peek c k = None \<Longrightarrow> lru_Get c k = (None, c)"
  by (simp add: lru_Get_def lru_Peek_def)

lemma lru_Get_Some:
  "lru_Peek c k = Some v \<Longrightarrow>
     lru_Get c k = (Some v, c\<lparr>lru_items := lru_touch k v (lru_items c)\<rparr>)"
  by (simp add: lru_Get_def lru_Peek_def)

lemma lru_Peek_Get: "lru_Peek (snd (lru_Get c k)) k' = lru_Peek c k'"
  by (auto simp: lru_Get_def lru_Peek_def map_of_lru_touch split: option.splits)

lemma lru_size_Get [simp]: "lru_size (snd (lru_Get c k)) = lru_size c"
  by (simp add: lru_Get_def split: option.splits)

lemma lru_size_Add [simp]: "lru_size (lru_Add c k v) = lru_size c"
  by (simp add: lru_Add_def Let_def split: option.splits)

lemma lru_Peek_Add_same:
  "0 < lru_size c \<Longrightarrow> lru_Peek (lru_Add c k v) k = Some v"
  by (cases "lru_items c")
     (auto simp: lru_Add_def lru_Peek_def map_of_lru_touch Let_def split: option.splits)

lemma lru_Peek_Add_present:
  "lru_Peek c k \<noteq> None \<Longrightarrow>
     lru_Peek (lru_Add c k v) k' = (if k' = k then Some v else lru_Peek c k')"
  by (auto simp: lru_Add_def lru_Peek_def map_of_lru_touch)

lemma sint_diff_nonneg:
  fixes v x :: int64
  assumes "0 \<le> sint x" "sint x \<le> sint v"
  shows "sint (v - x) = sint v - sint x"
proof -
  have b: "sint v < 2 ^ 63" using sint_lt [of v] by simp
  have "signed_take_bit 63 (sint v - sint x) = sint v - sint x"
    by (rule signed_take_bit_int_eq_self) (use assms b in auto)
  then show ?thesis by (simp add: sint_word_diff)
qed

lemma lru_Peek_touch:
  "lru_Peek (c\<lparr>lru_items := lru_touch key z (lru_items c)\<rparr>) k = (if k = key then Some z else lru_Peek c k)"
  by (simp add: lru_Peek_def map_of_lru_touch)

lemma lru_Peek_Add_touch:
  "lru_Peek (lru_Add (c\<lparr>lru_items := lru_touch key z (lru_items c)\<rparr>) key z') k
     = (if k = key then Some z' else lru_Peek c k)"
  by (simp add: lru_Peek_Add_present lru_Peek_touch)

lemma map_of_butlast_Some: "map_of (butlast xs) k = Some y \<Longrightarrow> map_of xs k = Some y"
proof (cases "xs = []")
  case False
  then have "xs = butlast xs @ [last xs]" by simp
  then have "map_of xs k = map_of (butlast xs @ [last xs]) k" by simp
  moreover assume "map_of (butlast xs) k = Some y"
  ultimately show ?thesis by (simp add: map_add_Some_iff)
qed simp

lemma lru_Peek_Add_absent:
  assumes "lru_Peek c key = None" "lru_Peek (lru_Add c key v) k = Some y" "k \<noteq> key"
  shows "lru_Peek c k = Some y"
proof -
  have "map_of (butlast ((key, v) # lru_items c)) k = Some y \<Longrightarrow> map_of (lru_items c) k = Some y"
    using map_of_butlast_Some [of "(key, v) # lru_items c" k y] assms(3) by simp
  then show ?thesis
    using assms by (auto simp: lru_Add_def lru_Peek_def Let_def split: if_splits)
qed

lemma lru_Peek_Add_absent_same:
  assumes "lru_Peek c key = None" "lru_Peek (lru_Add c key v) key = Some y"
  shows "y = v"
proof -
  have "map_of (butlast ((key, v) # lru_items c)) key = Some y \<Longrightarrow> y = v"
    using map_of_butlast_Some [of "(key, v) # lru_items c" key y] by simp
  then show ?thesis
    using assms by (auto simp: lru_Add_def lru_Peek_def Let_def split: if_splits)
qed

lemma nonneg_cache_Peek: "nonneg_cache c \<Longrightarrow> lru_Peek c k = Some x \<Longrightarrow> 0 \<le>s x"
  by (auto simp: nonneg_cache_def lru_Peek_def list_all_iff dest!: map_of_SomeD)

lemma nonneg_cache_touch:
  "nonneg_cache c \<Longrightarrow> 0 \<le>s z \<Longrightarrow> nonneg_cache (c\<lparr>lru_items := lru_touch k z (lru_items c)\<rparr>)"
  by (auto simp: nonneg_cache_def lru_touch_def list_all_iff)

lemma nonneg_cache_Add: "nonneg_cache c \<Longrightarrow> 0 \<le>s v \<Longrightarrow> nonneg_cache (lru_Add c k v)"
  by (auto simp: nonneg_cache_def lru_Add_def lru_touch_def list_all_iff Let_def
        split: option.splits dest: in_set_butlastD)

lemma nonneg_cache_step:
  assumes "nonneg_cache c" "cacheAndDiff (Some c) qh qph col v = (cached, diff, co)"
  shows "\<exists>c'. co = Some c' \<and> nonneg_cache c'"
proof (cases "v <s 0")
  case True
  with assms show ?thesis by (auto simp: cacheAndDiff_def)
next
  case False
  then have v: "0 \<le>s v" by (simp add: word_sless_alt word_sle_eq)
  show ?thesis
  proof (cases "lru_Peek c (counterKey qh qph col)")
    case None
    with assms False v show ?thesis
      by (auto simp: cacheAndDiff_def Let_def lru_Get_None nonneg_cache_Add)
  next
    case (Some x)
    then have "0 \<le>s x" using assms(1) nonneg_cache_Peek by blast
    with assms False v Some show ?thesis
      by (auto simp: cacheAndDiff_def Let_def lru_Get_Some nonneg_cache_Add nonneg_cache_touch
            split: if_splits)
  qed
qed

lemma reachable_nonneg: "reachable c \<Longrightarrow> nonneg_cache c"
proof (induction rule: reachable.induct)
  case (reachable_new n)
  then show ?case by (simp add: nonneg_cache_def lru_New_def)
next
  case (reachable_step c qh qph col v cached diff c')
  then show ?case using nonneg_cache_step by blast
qed

section \<open>Properties of the library functions\<close>

lemma HasPrefix_iff: "HasPrefix s p = (\<exists>r. s = p @ r)"
  unfolding HasPrefix_def
  by (metis append_eq_conv_conj append_take_drop_id)

lemma latch_exclusive:
  "\<not> (HasPrefix s ''LATCH_'' \<and> HasPrefix s ''PAGELATCH_'')"
  "\<not> (HasPrefix s ''LATCH_'' \<and> HasPrefix s ''PAGEIOLATCH_'')"
  by (auto simp: HasPrefix_iff)

lemma mset_insertLeft: "mset (insertLeft lt x acc) = add_mset x (mset acc)"
  by (induction acc) auto

lemma mset_foldl_insertLeft:
  "mset (foldl (\<lambda>acc x. insertLeft lt x acc) acc xs) = mset acc + mset xs"
  by (induction xs arbitrary: acc) (auto simp: mset_insertLeft)

lemma set_insertLeft: "set (insertLeft lt x acc) = insert x (set acc)"
  by (induction acc) auto

lemma sorted_insertLeft:
  fixes key :: "'a \<Rightarrow> int"
  shows "sorted_wrt (\<lambda>a b. key a \<le> key b) acc
    \<Longrightarrow> sorted_wrt (\<lambda>a b. key a \<le> key b) (insertLeft (\<lambda>a b. key b < key a) x acc)"
  by (induction acc) (auto simp: set_insertLeft)

lemma sorted_foldl_insertLeft:
  fixes key :: "'a \<Rightarrow> int"
  shows "sorted_wrt (\<lambda>a b. key a \<le> key b) acc
    \<Longrightarrow> sorted_wrt (\<lambda>a b. key a \<le> key b) (foldl (\<lambda>acc x. insertLeft (\<lambda>a b. key b < key a) x acc) acc xs)"
  by (induction xs arbitrary: acc) (auto simp: sorted_insertLeft)

lemma sort_Slice_spec_insertionSort: "sort_Slice_spec insertionSort_func"
  unfolding sort_Slice_spec_def insertionSort_func_def
  using sorted_foldl_insertLeft [of _ "[]"]
  by (auto simp: mset_foldl_insertLeft sorted_wrt_rev)

lemma descending_unique:
  fixes xs ys :: "int64 list"
  assumes "mset xs = mset ys"
      and "sorted_wrt (\<lambda>a b. sint b \<le> sint a) xs" "sorted_wrt (\<lambda>a b. sint b \<le> sint a) ys"
  shows "xs = ys"
proof -
  have s: "sorted (rev (map sint zs))" if "sorted_wrt (\<lambda>a b. sint b \<le> sint a) zs" for zs :: "int64 list"
    using that by (simp add: sorted_wrt_rev sorted_wrt_map)
  have m: "mset (rev (map sint xs)) = mset (rev (map sint ys))"
    using assms(1) by (metis mset_map mset_rev)
  have "rev (map sint xs) = rev (map sint ys)"
    using properties_for_sort [OF m s [OF assms(2)]] properties_for_sort [OF refl s [OF assms(3)]]
    by simp
  then have "map sint xs = map sint ys" by simp
  then show ?thesis
    by (metis inj_map_eq_map inj_signed)
qed

lemma sort_Slice_spec_mset: "sort_Slice_spec srt \<Longrightarrow> mset (srt lt xs) = mset xs"
  by (simp add: sort_Slice_spec_def)

lemma sort_Slice_spec_sorted:
  fixes key :: "'a \<Rightarrow> int"
  shows "sort_Slice_spec srt \<Longrightarrow> sorted_wrt (\<lambda>a b. key b \<le> key a) (srt (\<lambda>a b. key b < key a) xs)"
  by (simp add: sort_Slice_spec_def)

text \<open>
  On at most 12 elements \<^verbatim>\<open>sort.Slice\<close> is the insertion sort, and the insertion sort
  keeps the order of elements that the comparison does not separate.
\<close>

lemma sort_Slice_small: "length x \<le> 12 \<Longrightarrow> sort_Slice lt x = insertionSort_func lt x"
  by (subst sort_Slice_def, subst pdqsort_func.simps) (simp add: insertionSort_range_def)

lemma filter_insertLeft:
  assumes "\<And>y. lt x y \<Longrightarrow> \<not> (P x \<and> P y)"
  shows "filter P (insertLeft lt x acc) = filter P (x # acc)"
  using assms by (induction acc) auto

lemma filter_foldl_insertLeft:
  assumes "\<And>x y. lt x y \<Longrightarrow> \<not> (P x \<and> P y)"
  shows "filter P (foldl (\<lambda>acc x. insertLeft lt x acc) acc xs) = rev (filter P xs) @ filter P acc"
proof (induction xs arbitrary: acc)
  case Nil
  then show ?case by simp
next
  case (Cons x xs)
  have "filter P (insertLeft lt x acc) = filter P (x # acc)"
    using assms by (rule filter_insertLeft)
  with Cons [of "insertLeft lt x acc"] show ?case by simp
qed

lemma insertionSort_func_stable:
  assumes "\<And>x y. lt x y \<Longrightarrow> \<not> (P x \<and> P y)"
  shows "filter P (insertionSort_func lt xs) = filter P xs"
  using filter_foldl_insertLeft [of lt P "[]" xs, OF assms]
  by (simp add: insertionSort_func_def rev_filter [symmetric])

text \<open>The equations that run the definitions on concrete inputs.\<close>

lemmas cache_eval = cacheAndDiff_def cacheAndDiff_f64_def counterKey_def lru_Get_def lru_Add_def
  lru_touch_def lru_New_def lru_Peek_def word_sless_alt word_sle_eq Let_def

lemmas go_eval = EncodeToString_def hexDigit_def ParseInt_def ParseUint_def isDigit_def digitVal_def
  maxUint64_def int64_quo_def row_get_def

lemmas sort_eval = sortRows_def insertionSort_func_def

lemmas pdq_eval = sort_Slice_def pdqsort_func.simps insertionSort_range_def insertionSort_func_def
  choosePivot_func_def median_func_def order2_func_def partialInsertionSort_func_def
  partition_func_def partition_loop.simps scanUp.simps scanDown.simps Less_def Swap_def Let_def
  eval_nat_numeral

lemmas trim_eval = TrimSpace_def TrimLeft.simps TrimRightRev.simps stripSpace_def stripSpaceRev_def
  asciiSpace_def

lemmas xml_eval = obfuscateXMLPlan_def reserializeXML_def sampleXml_def sampleTokens_def planResult_def
  obfuscateToken_def obfuscateAttr_def XMLPlanObfuscationAttrs_def printToken_def printAttr_def
  sampleObfuscate_def

lemmas row_eval = recordRow_A_def recordRow_C_def counterColumns_def counterBlock_def baseAttrs_A_def
  baseAttrs_C_def sampleEnv_def errors_Join_def errList_def

lemma TrimSpace_x: "TrimSpace ''x'' = ''x''" "TrimSpace '' x '' = ''x''"
  by (simp_all add: trim_eval)

section \<open>Claims about the counter cache\<close>

text \<open>
  Claim C1, as amended. For every call \<^verbatim>\<open>cacheAndDiff(queryHash, planHash, column, v)\<close>
  on an initialised cache, in the int64 revisions: if \<open>v < 0\<close> it returns \<open>(false, 0)\<close>
  and leaves the cache as it is; if the key is absent it adds \<open>v\<close> and returns
  \<open>(false, v)\<close> (the key then holds \<open>v\<close>, the cache having a positive size); if the key
  holds \<open>x\<close> and \<open>v > x\<close> it returns \<open>(true, v - x)\<close> and the key then holds \<open>v\<close>, every
  other key being as before, and \<open>v - x\<close> does not overflow when \<open>x\<close> is not negative;
  if the key holds \<open>x\<close> and \<open>v \<le> x\<close> it returns \<open>(true, 0)\<close> and every key holds what it
  held. The float64 revision does the same, except that its guard is \<open>v \<le> 0\<close>: a
  zero is turned away like a negative value.
\<close>

theorem cacheAndDiff_cases:
  fixes c :: "int64 lru" and cf :: "('a::{zero,minus,ord}) lru"
  shows
  "(v <s 0 \<longrightarrow> cacheAndDiff (Some c) qh qph col v = (False, 0, Some c))
   \<and> (\<not> v <s 0 \<and> lru_Peek c (counterKey qh qph col) = None \<longrightarrow>
        cacheAndDiff (Some c) qh qph col v = (False, v, Some (lru_Add c (counterKey qh qph col) v))
        \<and> (0 < lru_size c \<longrightarrow> lru_Peek (lru_Add c (counterKey qh qph col) v) (counterKey qh qph col) = Some v))
   \<and> (\<forall>x. \<not> v <s 0 \<and> lru_Peek c (counterKey qh qph col) = Some x \<and> x <s v \<longrightarrow>
        (\<exists>c'. cacheAndDiff (Some c) qh qph col v = (True, v - x, Some c')
           \<and> (\<forall>k. lru_Peek c' k = (if k = counterKey qh qph col then Some v else lru_Peek c k))
           \<and> lru_size c' = lru_size c)
        \<and> (0 \<le>s x \<longrightarrow> sint (v - x) = sint v - sint x))
   \<and> (\<forall>x. \<not> v <s 0 \<and> lru_Peek c (counterKey qh qph col) = Some x \<and> \<not> x <s v \<longrightarrow>
        (\<exists>c'. cacheAndDiff (Some c) qh qph col v = (True, 0, Some c')
           \<and> (\<forall>k. lru_Peek c' k = lru_Peek c k) \<and> lru_size c' = lru_size c))
   \<and> (w \<le> 0 \<longrightarrow> cacheAndDiff_f64 (Some cf) qh qph col w = (False, 0, Some cf))
   \<and> (\<not> w \<le> 0 \<and> lru_Peek cf (counterKey qh qph col) = None \<longrightarrow>
        cacheAndDiff_f64 (Some cf) qh qph col w = (False, w, Some (lru_Add cf (counterKey qh qph col) w))
        \<and> (0 < lru_size cf \<longrightarrow> lru_Peek (lru_Add cf (counterKey qh qph col) w) (counterKey qh qph col) = Some w))
   \<and> (\<forall>y. \<not> w \<le> 0 \<and> lru_Peek cf (counterKey qh qph col) = Some y \<and> w > y \<longrightarrow>
        (\<exists>c'. cacheAndDiff_f64 (Some cf) qh qph col w = (True, w - y, Some c')
           \<and> (\<forall>k. lru_Peek c' k = (if k = counterKey qh qph col then Some w else lru_Peek cf k))
           \<and> lru_size c' = lru_size cf))
   \<and> (\<forall>y. \<not> w \<le> 0 \<and> lru_Peek cf (counterKey qh qph col) = Some y \<and> \<not> w > y \<longrightarrow>
        (\<exists>c'. cacheAndDiff_f64 (Some cf) qh qph col w = (True, 0, Some c')
           \<and> (\<forall>k. lru_Peek c' k = lru_Peek cf k) \<and> lru_size c' = lru_size cf))"
  by (auto simp: cacheAndDiff_def cacheAndDiff_f64_def Let_def lru_Get_None lru_Get_Some
        lru_Peek_Add_same lru_Peek_Add_touch lru_Peek_touch word_sless_alt word_sle_eq
        intro!: sint_diff_nonneg)

theorem cacheAndDiff_cases_witness:
  "cacheAndDiff (Some \<lparr>lru_size = 4, lru_items = [(''q-p-total_rows'', 1)]\<rparr>) ''q'' ''p'' ''total_rows'' (- 1)
      = (False, 0, Some \<lparr>lru_size = 4, lru_items = [(''q-p-total_rows'', 1)]\<rparr>)
   \<and> cacheAndDiff (Some (lru_New 4)) ''q'' ''p'' ''total_rows'' 1
      = (False, 1, Some \<lparr>lru_size = 4, lru_items = [(''q-p-total_rows'', 1)]\<rparr>)
   \<and> cacheAndDiff (Some \<lparr>lru_size = 4, lru_items = [(''q-p-total_rows'', 1)]\<rparr>) ''q'' ''p'' ''total_rows'' 3
      = (True, 2, Some \<lparr>lru_size = 4, lru_items = [(''q-p-total_rows'', 3)]\<rparr>)
   \<and> cacheAndDiff (Some \<lparr>lru_size = 4, lru_items = [(''q-p-total_rows'', 1)]\<rparr>) ''q'' ''p'' ''total_rows'' 1
      = (True, 0, Some \<lparr>lru_size = 4, lru_items = [(''q-p-total_rows'', 1)]\<rparr>)
   \<and> cacheAndDiff_f64 (Some \<lparr>lru_size = 4, lru_items = [(''q-p-total_rows'', 1 :: real)]\<rparr>) ''q'' ''p'' ''total_rows'' 3
      = (True, 2, Some \<lparr>lru_size = 4, lru_items = [(''q-p-total_rows'', 3)]\<rparr>)"
  using cacheAndDiff_cases [of "- 1" "\<lparr>lru_size = 4, lru_items = [(''q-p-total_rows'', 1)]\<rparr>"
          "''q''" "''p''" "''total_rows''" "3 :: real"
          "\<lparr>lru_size = 4, lru_items = [(''q-p-total_rows'', 1 :: real)]\<rparr>"]
  by (simp add: cache_eval)

text \<open>
  The claim as first stated fails in the float64 revision at \<open>v = 0\<close>: with the key
  cached at 5 the call returns \<open>(false, 0)\<close>, not \<open>(true, 0)\<close>; with the key absent
  nothing is added.
\<close>

theorem cacheAndDiff_zero_counterexample:
  "lru_Peek \<lparr>lru_size = 4, lru_items = [(''q-p-total_rows'', 5 :: real)]\<rparr> (counterKey ''q'' ''p'' ''total_rows'') = Some 5
   \<and> \<not> (0 :: real) < 0 \<and> (0 :: real) \<le> 5
   \<and> cacheAndDiff_f64 (Some \<lparr>lru_size = 4, lru_items = [(''q-p-total_rows'', 5 :: real)]\<rparr>) ''q'' ''p'' ''total_rows'' 0
      = (False, 0, Some \<lparr>lru_size = 4, lru_items = [(''q-p-total_rows'', 5)]\<rparr>)
   \<and> lru_Peek (lru_New 4 :: real lru) (counterKey ''q'' ''p'' ''total_rows'') = None
   \<and> cacheAndDiff_f64 (Some (lru_New 4 :: real lru)) ''q'' ''p'' ''total_rows'' 0 = (False, 0, Some (lru_New 4))"
  by (simp add: cache_eval)

text \<open>
  Claim C10, as amended. In any cache reached from a new one by calls of
  \<^verbatim>\<open>cacheAndDiff\<close>, one more call leaves a reachable cache in which no key that is
  present before and after holds less than before: a value changes only under the key
  of the call, and only to the strictly larger value of the call. For a non-negative
  value the returned difference is never negative. When the key is not in the cache,
  because it was never observed or because the cache has evicted it, the call returns
  the value itself, reports the key as not cached, and the key then holds the value.
  When the key is in the cache, the call reports it as cached and returns either the
  strictly positive difference to the cached value, which the value then replaces, or
  zero, the cached value staying.
\<close>

theorem cacheAndDiff_monotone:
  assumes "reachable c" and "cacheAndDiff (Some c) qh qph col v = (cached, diff, co)"
  shows "\<exists>c'. co = Some c' \<and> reachable c'
     \<and> (\<forall>k x y. lru_Peek c k = Some x \<and> lru_Peek c' k = Some y \<longrightarrow>
            x \<le>s y \<and> (x \<noteq> y \<longrightarrow> x <s y \<and> k = counterKey qh qph col \<and> y = v))
     \<and> (0 \<le>s v \<longrightarrow>
            0 \<le>s diff
          \<and> (lru_Peek c (counterKey qh qph col) = None \<longrightarrow>
                 \<not> cached \<and> diff = v \<and> lru_Peek c' (counterKey qh qph col) = Some v)
          \<and> (\<forall>x. lru_Peek c (counterKey qh qph col) = Some x \<longrightarrow>
                 cached
               \<and> (if x <s v
                    then 0 <s diff \<and> sint diff = sint v - sint x
                       \<and> lru_Peek c' (counterKey qh qph col) = Some v
                    else diff = 0 \<and> lru_Peek c' (counterKey qh qph col) = Some x)))"
proof -
  have nn: "nonneg_cache c" using assms(1) by (rule reachable_nonneg)
  then have sz: "0 < lru_size c" by (simp add: nonneg_cache_def)
  obtain c' where co: "co = Some c'"
    using nonneg_cache_step [OF nn assms(2)] by blast
  have r: "reachable c'" using assms co by (auto intro: reachable_step)
  let ?key = "counterKey qh qph col"
  show ?thesis
  proof (cases "v <s 0")
    case True
    with assms(2) co have "c' = c" by (simp add: cacheAndDiff_def)
    with True co r show ?thesis by (auto simp: word_sless_alt word_sle_eq)
  next
    case False
    then have v: "0 \<le> sint v" by (simp add: word_sless_alt)
    show ?thesis
    proof (cases "lru_Peek c ?key")
      case None
      with assms(2) False co have res: "cached = False" "diff = v" "c' = lru_Add c ?key v"
        by (auto simp: cacheAndDiff_def Let_def lru_Get_None)
      have "lru_Peek c k = Some x \<Longrightarrow> lru_Peek c' k = Some y \<Longrightarrow> x = y" for k x y
        using lru_Peek_Add_absent [OF None, of v k y] None res(3) by (cases "k = ?key") auto
      moreover have "lru_Peek c' ?key = Some v"
        unfolding res(3) using sz by (rule lru_Peek_Add_same)
      ultimately show ?thesis using co r res None v by (auto simp: word_sle_eq)
    next
      case (Some x)
      then have x: "0 \<le> sint x" using nn nonneg_cache_Peek [of c ?key x] by (simp add: word_sle_eq)
      show ?thesis
      proof (cases "x <s v")
        case True
        with assms(2) False co Some have res: "cached" "diff = v - x"
            "c' = lru_Add (c\<lparr>lru_items := lru_touch ?key x (lru_items c)\<rparr>) ?key v"
          by (auto simp: cacheAndDiff_def Let_def lru_Get_Some)
        have d: "sint (v - x) = sint v - sint x"
          using x True by (intro sint_diff_nonneg) (auto simp: word_sless_alt)
        have p: "lru_Peek c' k = (if k = ?key then Some v else lru_Peek c k)" for k
          unfolding res(3) by (rule lru_Peek_Add_touch)
        show ?thesis
          using co r res(1,2) Some True d p v by (auto simp: word_sle_eq word_sless_alt)
      next
        case nlt: False
        with assms(2) False co Some have res: "cached" "diff = 0"
            "c' = c\<lparr>lru_items := lru_touch ?key x (lru_items c)\<rparr>"
          by (auto simp: cacheAndDiff_def Let_def lru_Get_Some)
        have p: "lru_Peek c' k = lru_Peek c k" for k
          unfolding res(3) using Some by (simp add: lru_Peek_touch)
        show ?thesis
          using co r res(1,2) Some nlt p v by (auto simp: word_sle_eq word_sless_alt)
      qed
    qed
  qed
qed

theorem cacheAndDiff_monotone_witness:
  "reachable \<lparr>lru_size = 4, lru_items = [(''q-p-total_rows'', 1)]\<rparr>
   \<and> cacheAndDiff (Some \<lparr>lru_size = 4, lru_items = [(''q-p-total_rows'', 1)]\<rparr>) ''q'' ''p'' ''total_rows'' 3
        = (True, 2, Some \<lparr>lru_size = 4, lru_items = [(''q-p-total_rows'', 3)]\<rparr>)
   \<and> reachable \<lparr>lru_size = 4, lru_items = [(''q-p-total_rows'', 3)]\<rparr>
   \<and> lru_Peek \<lparr>lru_size = 4, lru_items = [(''q-p-total_rows'', 3)]\<rparr> (counterKey ''q'' ''p'' ''total_rows'') = Some 3
   \<and> (1 :: int64) <s 3 \<and> (0 :: int64) <s 2 \<and> sint (2 :: int64) = sint (3 :: int64) - sint (1 :: int64)"
proof -
  let ?c1 = "\<lparr>lru_size = 4, lru_items = [(''q-p-total_rows'', 1 :: int64)]\<rparr>"
  let ?c2 = "\<lparr>lru_size = 4, lru_items = [(''q-p-total_rows'', 3 :: int64)]\<rparr>"
  have e1: "cacheAndDiff (Some (lru_New 4)) ''q'' ''p'' ''total_rows'' 1 = (False, 1, Some ?c1)"
    by (simp add: cache_eval)
  have r1: "reachable ?c1"
    by (rule reachable_step [OF reachable_new e1]) simp
  have e2: "cacheAndDiff (Some ?c1) ''q'' ''p'' ''total_rows'' 3 = (True, 2, Some ?c2)"
    by (simp add: cache_eval)
  from cacheAndDiff_monotone [OF r1 e2] have "reachable ?c2" by simp
  with r1 e2 show ?thesis by (simp add: word_sless_alt lru_Peek_def counterKey_def)
qed

text \<open>
  The claim as first stated fails once the cache evicts a key. In a cache of size 1,
  the key \<open>a\<close> holds 10 after the first call; the call for \<open>b\<close> evicts it; the second
  observation of \<open>a\<close>, with the value 3, is reported as not cached, and \<open>a\<close> then holds
  3, less than the 10 it held.
\<close>

theorem cacheAndDiff_eviction_counterexample:
  "cacheAndDiffs (Some (lru_New 1)) [(''a'', ''p'', ''total_rows'', 10)]
     = ([(False, 10)], Some \<lparr>lru_size = 1, lru_items = [(''a-p-total_rows'', 10)]\<rparr>)
   \<and> cacheAndDiffs (Some (lru_New 1))
        [(''a'', ''p'', ''total_rows'', 10), (''b'', ''p'', ''total_rows'', 1)]
     = ([(False, 10), (False, 1)], Some \<lparr>lru_size = 1, lru_items = [(''b-p-total_rows'', 1)]\<rparr>)
   \<and> cacheAndDiffs (Some (lru_New 1))
        [(''a'', ''p'', ''total_rows'', 10), (''b'', ''p'', ''total_rows'', 1), (''a'', ''p'', ''total_rows'', 3)]
     = ([(False, 10), (False, 1), (False, 3)], Some \<lparr>lru_size = 1, lru_items = [(''a-p-total_rows'', 3)]\<rparr>)
   \<and> (3 :: int64) <s 10"
  by (simp add: cache_eval)

text \<open>
  The calls of \<^verbatim>\<open>TestScrapeCacheAndDiff\<close> (scraper_test.go:178-192), in the int64
  revisions.
\<close>

lemma cacheAndDiffs_test:
  "cacheAndDiffs (Some (lru_New 4))
      [(''query_hash'', ''query_plan_hash'', ''column'', - 1),
       (''query_hash'', ''query_plan_hash'', ''column'', 1),
       (''query_hash'', ''query_plan_hash'', ''column'', 1),
       (''query_hash'', ''query_plan_hash'', ''column'', 3)]
    = ([(False, 0), (False, 1), (True, 0), (True, 2)],
       Some \<lparr>lru_size = 4, lru_items = [(''query_hash-query_plan_hash-column'', 3)]\<rparr>)"
  by (simp add: cache_eval)

text \<open>
  Any sequence of calls on a reachable cache returns one result per call and ends in a
  reachable cache.
\<close>

lemma cacheAndDiffs_reachable:
  "reachable c \<Longrightarrow>
     \<exists>c'. snd (cacheAndDiffs (Some c) calls) = Some c' \<and> reachable c'
        \<and> length (fst (cacheAndDiffs (Some c) calls)) = length calls"
proof (induction calls arbitrary: c)
  case Nil
  then show ?case by simp
next
  case (Cons call calls)
  obtain qh qph col v where call: "call = (qh, qph, col, v)" by (cases call)
  obtain cached diff co where step: "cacheAndDiff (Some c) qh qph col v = (cached, diff, co)"
    by (cases "cacheAndDiff (Some c) qh qph col v")
  from nonneg_cache_step [OF reachable_nonneg [OF Cons.prems] step]
  obtain c1 where co: "co = Some c1" by blast
  have "reachable c1" using Cons.prems step co by (auto intro: reachable_step)
  from Cons.IH [OF this] show ?case
    by (auto simp: call step co split: prod.splits)
qed

section \<open>Claims about the wait categories\<close>

lemma getWaitCategory_absent:
  assumes "detailed s = None"
  shows "getWaitCategory detailed names s = classify_spec s"
proof -
  have a: "\<not> (HasPrefix s ''LATCH_'' \<and> HasPrefix s ''PAGELATCH_'')"
    and b: "\<not> (HasPrefix s ''LATCH_'' \<and> HasPrefix s ''PAGEIOLATCH_'')"
    by (rule latch_exclusive)+
  show ?thesis
    using assms a b
    unfolding getWaitCategory_def classify_spec_def anyOf_def
    by auto
qed

lemma classify_examples:
  "classify_spec ''PAGEIOLATCH_SH'' = (6, ''Buffer IO'')"
  "classify_spec ''HADR_THROTTLE_LOG_RATE_GOVERNOR'' = (0, ''Unknown'')"
  "classify_spec ''HADR_SYNC_COMMIT'' = (22, ''Replication'')"
  by (simp_all add: classify_spec_def HasPrefix_def)

text \<open>
  Claim C7. \<^verbatim>\<open>getWaitCategory\<close> is a function of the wait type (and of the two tables).
  For a wait type that is not in the detailed table it returns the bucket of the first
  rule that applies in the order the spec states; in particular \<open>PAGEIOLATCH_SH\<close> gives
  \<open>(6, Buffer IO)\<close> and \<open>HADR_THROTTLE_LOG_RATE_GOVERNOR\<close> gives \<open>(0, Unknown)\<close> when
  the table does not hold them, and a wait type to which no rule applies gives
  \<open>(0, Unknown)\<close>. A wait type in the detailed table gets the table's code and name.
\<close>

theorem getWaitCategory_classify:
  "(detailed s = None \<longrightarrow> getWaitCategory detailed names s = classify_spec s)
   \<and> (detailed ''PAGEIOLATCH_SH'' = None \<longrightarrow>
        getWaitCategory detailed names ''PAGEIOLATCH_SH'' = (6, ''Buffer IO''))
   \<and> (detailed ''HADR_THROTTLE_LOG_RATE_GOVERNOR'' = None \<longrightarrow>
        getWaitCategory detailed names ''HADR_THROTTLE_LOG_RATE_GOVERNOR'' = (0, ''Unknown''))
   \<and> (detailed s = None \<and> snd (classify_spec s) = ''Unknown'' \<longrightarrow>
        getWaitCategory detailed names s = (0, ''Unknown''))
   \<and> (\<forall>code. detailed s = Some code \<longrightarrow> getWaitCategory detailed names s = (code, names code))"
proof -
  have u: "snd (classify_spec s) = ''Unknown'' \<Longrightarrow> classify_spec s = (0, ''Unknown'')"
    unfolding classify_spec_def by (auto split: if_splits)
  show ?thesis
    using u by (auto simp: getWaitCategory_absent classify_examples) (simp add: getWaitCategory_def)
qed

theorem getWaitCategory_classify_witness:
  "getWaitCategory Map.empty (\<lambda>code. []) ''PAGEIOLATCH_SH'' = (6, ''Buffer IO'')
   \<and> getWaitCategory Map.empty (\<lambda>code. []) ''HADR_THROTTLE_LOG_RATE_GOVERNOR'' = (0, ''Unknown'')
   \<and> getWaitCategory Map.empty (\<lambda>code. []) ''HADR_SYNC_COMMIT'' = (22, ''Replication'')
   \<and> getWaitCategory Map.empty (\<lambda>code. []) ''SOS_SCHEDULER_YIELD'' = (0, ''Unknown'')
   \<and> getWaitCategory [''CXPACKET'' \<mapsto> 16] (\<lambda>code. if code = 16 then ''Parallelism'' else []) ''CXPACKET'' = (16, ''Parallelism'')"
  using getWaitCategory_classify [of Map.empty "''HADR_SYNC_COMMIT''" "\<lambda>code. []"]
        getWaitCategory_classify [of Map.empty "''SOS_SCHEDULER_YIELD''" "\<lambda>code. []"]
        getWaitCategory_classify [of "[''CXPACKET'' \<mapsto> 16]" "''CXPACKET''" "\<lambda>code. if code = 16 then ''Parallelism'' else []"]
  by (simp add: classify_spec_def HasPrefix_def)

section \<open>Claims about the dispatch\<close>

text \<open>
  Claim C9. When the configured query text equals none of the catalog's texts for the
  metric kinds a revision supports, \<^verbatim>\<open>ScrapeMetrics\<close> returns empty metrics and an
  error; when it equals none of the texts for the log kinds, \<^verbatim>\<open>ScrapeLogs\<close> returns
  empty logs and an error. Both revisions of the dispatch are covered; the cache is
  not touched.
\<close>

theorem Scrape_unsupported_query:
  "(sqlQuery s \<noteq> getSQLServerDatabaseIOQuery cat (instanceName s)
    \<and> sqlQuery s \<noteq> getSQLServerPerformanceCounterQuery cat (instanceName s)
    \<and> sqlQuery s \<noteq> getSQLServerPropertiesQuery cat (instanceName s)
    \<longrightarrow> ScrapeMetrics_A cat mm s = ([], Some (ErrUnsupportedQuery ''metrics'' (sqlQuery s))))
   \<and> (sqlQuery s \<noteq> getSQLServerQueryTextAndPlanQuery cat (instanceName s) (maxQuerySampleCount s) (lookbackTime s)
    \<longrightarrow> ScrapeLogs_A env cat s c q = Some ([], Some (ErrUnsupportedQuery ''logs'' (sqlQuery s)), c))
   \<and> (sqlQuery s \<noteq> getSQLServerDatabaseIOQuery cat (instanceName s)
    \<and> sqlQuery s \<noteq> getSQLServerPerformanceCounterQuery cat (instanceName s)
    \<and> sqlQuery s \<noteq> getSQLServerPropertiesQuery cat (instanceName s)
    \<and> sqlQuery s \<noteq> getSQLServerQueryMetricsQuery cat (instanceName s) (maxQuerySampleCount s) (lookbackTime s)
    \<longrightarrow> ScrapeMetrics_C env cat mm s c q = Some ([], Some (ErrUnsupportedQuery ''metrics'' (sqlQuery s)), c))
   \<and> (sqlQuery s \<noteq> getSQLServerQueryTextAndPlanQuery cat (instanceName s) (maxQuerySampleCount s) (lookbackTime s)
    \<and> sqlQuery s \<noteq> getSQLServerQuerySamplesQuery cat
    \<longrightarrow> ScrapeLogs_C env cat detailed names s c q = Some ([], Some (ErrUnsupportedQuery ''logs'' (sqlQuery s)), c))"
  by (simp add: ScrapeMetrics_A_def ScrapeLogs_A_def ScrapeMetrics_C_def ScrapeLogs_C_def)

theorem Scrape_unsupported_query_witness:
  "ScrapeMetrics_A sampleCatalog sampleMappers sampleHelper
     = ([], Some (ErrUnsupportedQuery ''metrics'' ''Invalid SQL query''))
   \<and> ScrapeLogs_A sampleEnv sampleCatalog sampleHelper (Some (lru_New 8)) (QueryRowsOK [])
     = Some ([], Some (ErrUnsupportedQuery ''logs'' ''Invalid SQL query''), Some (lru_New 8))
   \<and> ScrapeMetrics_C sampleEnv sampleCatalog sampleMappers sampleHelper (Some (lru_New 8)) (QueryRowsOK [])
     = Some ([], Some (ErrUnsupportedQuery ''metrics'' ''Invalid SQL query''), Some (lru_New 8))
   \<and> ScrapeLogs_C sampleEnv sampleCatalog Map.empty (\<lambda>code. []) sampleHelper (Some (lru_New 8)) (QueryRowsOK [])
     = Some ([], Some (ErrUnsupportedQuery ''logs'' ''Invalid SQL query''), Some (lru_New 8))"
  using Scrape_unsupported_query [of sampleHelper sampleCatalog sampleMappers sampleEnv
      "Some (lru_New 8)" "QueryRowsOK []" Map.empty "\<lambda>code. []"]
  by (simp add: sampleCatalog_def sampleHelper_def)

section \<open>Claims about the query samples\<close>

text \<open>
  As long as no key of a row is in the cache, every row gets a record and the cache
  stays as it is.
\<close>

lemma sampleLoop_absent:
  "list_all (\<lambda>row. lru_Peek c (EncodeToString (row_get row ''query_hash'') @ ''-''
                        @ EncodeToString (row_get row ''query_plan_hash'')) = None) rows
   \<Longrightarrow> sampleLoop mk (Some c) rows = Some (map mk rows, Some c)"
  by (induction rows) (auto simp: lru_Get_None)

text \<open>
  Claim C5, at the input where the code fails it. Two rows with the same query hash and
  plan hash, in one scrape, on a new cache: both get a record and the cache is left as
  it was. The key of a sample that is emitted is never recorded: \<^verbatim>\<open>s.cache.Add\<close> stands
  in the branch of a key that is already there.
\<close>

theorem sample_duplicate_emitted:
  "recordDatabaseSampleQuery sampleObfuscate Map.empty (\<lambda>code. []) (Some (lru_New 8))
      (QueryRowsOK [sampleRow, sampleRow])
    = Some ([sampleRecord sampleObfuscate Map.empty (\<lambda>code. []) sampleRow,
             sampleRecord sampleObfuscate Map.empty (\<lambda>code. []) sampleRow],
            None, Some (lru_New 8))"
  by (simp add: recordDatabaseSampleQuery_def rowsOf_def errors_Join_def lru_Get_def lru_New_def)

section \<open>Claims about the ranked mappers\<close>

text \<open>
  The second loop of revision A and of the metrics mapper stops at the top count and
  skips the differences that are zero. Whatever \<^verbatim>\<open>sort.Slice\<close> does within its
  documented behaviour, these two mappers emit at most \<^verbatim>\<open>topQueryCount\<close> records, and
  at most as many as the first loop found positive differences.
\<close>

lemma topLoop_length_filter:
  "length (fst (topLoop body topN i cache pairs)) \<le> length (filter (\<lambda>p. snd p \<noteq> 0) pairs)"
  by (induction body topN i cache pairs rule: topLoop.induct) (auto split: prod.splits)

lemma topLoop_length_top:
  "int (length (fst (topLoop body topN i cache pairs))) \<le> max 0 (sint topN - int i)"
proof (induction pairs arbitrary: i cache)
  case Nil
  then show ?case by simp
next
  case (Cons p pairs)
  obtain row d where p: "p = (row, d)" by (cases p)
  obtain r errs cache1 where b: "body i cache row d = (r, errs, cache1)" by (cases "body i cache row d")
  from Cons [of "Suc i" cache] Cons [of "Suc i" cache1]
  show ?case by (auto simp: p b split: prod.splits)
qed

lemma filter_zip_snd:
  "length (filter (\<lambda>p. P (snd p)) (zip xs ys)) \<le> length (filter P ys)"
proof (induction ys arbitrary: xs)
  case Nil
  then show ?case by simp
next
  case (Cons y ys)
  then show ?case by (cases xs) (auto intro: le_SucI)
qed

lemma elapsedLoop_sign:
  "d \<in> set (fst (elapsedLoop cache rows)) \<Longrightarrow> d = 0 \<or> 0 <s d"
  by (induction cache rows rule: elapsedLoop.induct)
     (auto split: prod.splits option.splits if_splits simp: Let_def)

lemma topLoop_bound:
  fixes srt :: "(int64 \<Rightarrow> int64 \<Rightarrow> bool) \<Rightarrow> int64 list \<Rightarrow> int64 list"
  assumes "sort_Slice_spec srt"
  shows "length (fst (topLoop body topN 0 cache1 (zip rows (srt lt (fst (elapsedLoop cache rs))))))
          \<le> length (filter (\<lambda>d. 0 <s d) (fst (elapsedLoop cache rs)))"
proof -
  let ?ds = "fst (elapsedLoop cache rs)"
  have "length (fst (topLoop body topN 0 cache1 (zip rows (srt lt ?ds))))
        \<le> length (filter (\<lambda>p. snd p \<noteq> 0) (zip rows (srt lt ?ds)))"
    by (rule topLoop_length_filter)
  also have "\<dots> \<le> length (filter (\<lambda>d. d \<noteq> 0) (srt lt ?ds))"
    by (rule filter_zip_snd)
  also have "\<dots> = size (filter_mset (\<lambda>d. d \<noteq> 0) (mset (srt lt ?ds)))"
    by (metis mset_filter size_mset)
  also have "\<dots> = size (filter_mset (\<lambda>d. d \<noteq> 0) (mset ?ds))"
    using assms by (simp only: sort_Slice_spec_mset)
  also have "\<dots> = length (filter (\<lambda>d. d \<noteq> 0) ?ds)"
    by (metis mset_filter size_mset)
  also have "filter (\<lambda>d. d \<noteq> 0) ?ds = filter (\<lambda>d. 0 <s d) ?ds"
    by (rule filter_cong) (auto dest: elapsedLoop_sign)
  finally show ?thesis .
qed

lemma topLoop_bound_rel:
  fixes srt :: "(int64 \<Rightarrow> int64 \<Rightarrow> bool) \<Rightarrow> int64 list \<Rightarrow> int64 list"
  assumes "sort_Slice_spec srt" and "elapsedLoop cache rs = (ds, pe, c1)"
      and "topLoop body topN 0 c2 (zip rows (srt lt ds)) = (out, errs, c3)"
  shows "int (length out) \<le> max 0 (sint topN)
       \<and> length out \<le> length (filter (\<lambda>d. 0 <s d) ds)"
  using topLoop_bound [OF assms(1), of body topN c2 rows lt cache rs]
        topLoop_length_top [of body topN 0 c2 "zip rows (srt lt ds)"]
  by (simp add: assms(2,3))

lemma ranked_bound:
  assumes "sort_Slice_spec (sortInt64s env)"
  shows "recordDatabaseQueryTextAndPlan_A env cache q topN = Some (logs, e, cache') \<Longrightarrow>
           int (length logs) \<le> max 0 (sint topN)
         \<and> length logs \<le> length (filter (\<lambda>d. 0 <s d) (fst (elapsedLoop cache (rowsOf q))))"
    and "recordDatabaseQueryMetrics_C env cache q topN = Some (emitted, e, cache') \<Longrightarrow>
           int (length emitted) \<le> max 0 (sint topN)
         \<and> length emitted \<le> length (filter (\<lambda>d. 0 <s d) (fst (elapsedLoop cache (rowsOf q))))"
  unfolding recordDatabaseQueryTextAndPlan_A_def recordDatabaseQueryMetrics_C_def
  by (auto split: queryRows.splits prod.splits option.splits dest: topLoop_bound_rel [OF assms])

text \<open>
  Claim C2, at the inputs where the code fails it, both in
  \<^verbatim>\<open>recordDatabaseQueryTextAndPlan\<close> of revision C. First, one row whose elapsed time
  grew by 4 since it was cached, and \<^verbatim>\<open>topQueryCount = 0\<close>: one record is emitted, more
  than the top count. Second, one row seen for the first time, and
  \<^verbatim>\<open>topQueryCount = 10\<close>: one record is emitted, although no row has a positive
  elapsed-time difference.
\<close>

theorem ranked_bounds_exceeded:
  "recordDatabaseQueryTextAndPlan_C sampleEnv (Some sampleCache) (QueryRowsOK [sampleRow]) 0
     = Some ([\<lparr>Attributes =
                 [(''computer_name'', ValueStr ''H''),
                  (''sql_instance'', ValueStr ''I''),
                  (''db.query_hash'', ValueStr ''71''),
                  (''db.query_plan_hash'', ValueStr ''70''),
                  (''db.total_elapsed_time'', ValueInt 4),
                  (''db.total_rows'', ValueInt 0),
                  (''db.query_text'', ValueStr ''SELECT ?''),
                  (''db.query_plan'', ValueStr ''<a>x</a>'')],
               Body = []\<rparr>],
             None,
             Some \<lparr>lru_size = 8,
                   lru_items =
                     [(''71-70-total_grant_kb'', 0),
                      (''71-70-total_worker_time'', 3),
                      (''71-70-execution_count'', 7),
                      (''71-70-total_physical_reads'', 0),
                      (''71-70-total_logical_writes'', 0),
                      (''71-70-total_logical_reads'', 9),
                      (''71-70-total_rows'', 5),
                      (''71-70-total_elapsed_time'', 5)]\<rparr>)
   \<and> fst (elapsedLoop (Some sampleCache) [sampleRow]) = [4]
   \<and> recordDatabaseQueryTextAndPlan_C sampleEnv (Some (lru_New 8)) (QueryRowsOK [sampleRow]) 10
     = Some ([\<lparr>Attributes =
                 [(''computer_name'', ValueStr ''H''),
                  (''sql_instance'', ValueStr ''I''),
                  (''db.query_hash'', ValueStr ''71''),
                  (''db.query_plan_hash'', ValueStr ''70''),
                  (''db.total_elapsed_time'', ValueInt 0),
                  (''db.query_text'', ValueStr ''SELECT ?''),
                  (''db.query_plan'', ValueStr ''<a>x</a>'')],
               Body = []\<rparr>],
             None,
             Some \<lparr>lru_size = 8,
                   lru_items =
                     [(''71-70-total_grant_kb'', 0),
                      (''71-70-total_worker_time'', 3),
                      (''71-70-execution_count'', 7),
                      (''71-70-total_physical_reads'', 0),
                      (''71-70-total_logical_writes'', 0),
                      (''71-70-total_logical_reads'', 9),
                      (''71-70-total_rows'', 5),
                      (''71-70-total_elapsed_time'', 5)]\<rparr>)
   \<and> fst (elapsedLoop (Some (lru_New 8)) [sampleRow]) = [0]"
  by (simp add: recordDatabaseQueryTextAndPlan_C_def rowsOf_def row_eval sort_eval go_eval cache_eval
        sampleRow_def sampleCache_def xml_eval TrimSpace_x)

text \<open>
  A counter column writes no attribute but its own, and the later columns leave the
  attribute of an earlier one as it is.
\<close>

lemma map_of_Put: "map_of (Put m k v) = (map_of m)(k \<mapsto> v)"
  by (induction m) (auto simp: fun_eq_iff)

lemma counterBlock_other:
  assumes "n column' \<noteq> name"
  shows "map_of (fst (counterBlock g w n i qh qph row st (column', rule', millis'))) name = map_of (fst st) name"
  using assms
  by (cases st) (auto simp: counterBlock_def Let_def map_of_Put split: prod.splits option.splits)

lemma foldl_counterBlock_other:
  assumes "list_all (\<lambda>c. n (fst c) \<noteq> name) cols"
  shows "map_of (fst (foldl (counterBlock g w n i qh qph row) st cols)) name = map_of (fst st) name"
  using assms
proof (induction cols arbitrary: st)
  case Nil
  then show ?case by simp
next
  case (Cons c cols)
  obtain column' rule' millis' where c: "c = (column', rule', millis')" by (cases c)
  from Cons.prems have "n column' \<noteq> name" and rest: "list_all (\<lambda>c. n (fst c) \<noteq> name) cols"
    by (simp_all add: c)
  then show ?case
    by (simp add: Cons.IH [OF rest] c counterBlock_other)
qed

lemma counterBlock_own:
  assumes "ParseInt (row_get row column) = (parsed, e)"
  shows "map_of (fst (counterBlock g w n i qh qph row (attrs, errs, cache) (column, rule, millis))) (n column) =
     (if rule = CallIfParsed \<and> e \<noteq> None then map_of attrs (n column)
      else case cacheAndDiff cache qh qph column (if millis then int64_quo parsed 1000 else parsed) of
             (cached, diff, c') \<Rightarrow>
               if cached \<and> (if g then 0 <s diff else True) then Some (ValueInt diff)
               else map_of attrs (n column))"
  using assms
  by (auto simp: counterBlock_def Let_def map_of_Put split: prod.splits option.splits)

lemma foldl_counterBlock_own:
  assumes d: "distinct (map (\<lambda>c. n (fst c)) cols)"
      and k: "k < length cols" "cols ! k = (column, rule, millis)"
      and p: "ParseInt (row_get row column) = (parsed, e)"
      and s: "foldl (counterBlock g w n i qh qph row) st0 (take k cols) = (attrsK, errsK, cacheK)"
      and b: "map_of (fst st0) (n column) = None"
  shows "map_of (fst (foldl (counterBlock g w n i qh qph row) st0 cols)) (n column) =
     (if rule = CallIfParsed \<and> e \<noteq> None then None
      else case cacheAndDiff cacheK qh qph column (if millis then int64_quo parsed 1000 else parsed) of
             (cached, diff, c') \<Rightarrow>
               if cached \<and> (if g then 0 <s diff else True) then Some (ValueInt diff) else None)"
proof -
  have split: "take k cols @ (column, rule, millis) # drop (Suc k) cols = cols"
    using k by (metis id_take_nth_drop)
  have dd: "distinct (map (\<lambda>c. n (fst c)) (take k cols @ (column, rule, millis) # drop (Suc k) cols))"
    using d by (simp only: split)
  have nb: "n column \<notin> (\<lambda>c. n (fst c)) ` set (take k cols)"
      "n column \<notin> (\<lambda>c. n (fst c)) ` set (drop (Suc k) cols)"
    using dd by auto
  have notin: "list_all (\<lambda>c. n (fst c) \<noteq> x) cs" if "x \<notin> (\<lambda>c. n (fst c)) ` set cs"
    for x and cs :: "(string \<times> callRule \<times> bool) list"
    unfolding list_all_iff
  proof
    fix c assume "c \<in> set cs"
    then have "n (fst c) \<in> (\<lambda>c. n (fst c)) ` set cs" by (rule imageI)
    with that show "n (fst c) \<noteq> x" by auto
  qed
  have before: "list_all (\<lambda>c. n (fst c) \<noteq> n column) (take k cols)"
    using nb(1) by (rule notin)
  have after: "list_all (\<lambda>c. n (fst c) \<noteq> n column) (drop (Suc k) cols)"
    using nb(2) by (rule notin)
  have "map_of (fst (foldl (counterBlock g w n i qh qph row) st0 (take k cols))) (n column) = map_of (fst st0) (n column)"
    by (rule foldl_counterBlock_other [OF before])
  then have a0: "map_of attrsK (n column) = None"
    by (simp add: s b)
  have "foldl (counterBlock g w n i qh qph row) st0 (take k cols @ (column, rule, millis) # drop (Suc k) cols)
      = foldl (counterBlock g w n i qh qph row)
          (counterBlock g w n i qh qph row (attrsK, errsK, cacheK) (column, rule, millis)) (drop (Suc k) cols)"
    by (simp only: foldl_append foldl_Cons s)
  then have "foldl (counterBlock g w n i qh qph row) st0 cols
      = foldl (counterBlock g w n i qh qph row)
          (counterBlock g w n i qh qph row (attrsK, errsK, cacheK) (column, rule, millis)) (drop (Suc k) cols)"
    by (simp only: split)
  then have "map_of (fst (foldl (counterBlock g w n i qh qph row) st0 cols)) (n column)
      = map_of (fst (counterBlock g w n i qh qph row (attrsK, errsK, cacheK) (column, rule, millis))) (n column)"
    by (simp only: foldl_counterBlock_other [OF after])
  then show ?thesis
    by (simp only: counterBlock_own [OF p] a0)
qed

lemma counterBlock_cache:
  "snd (snd (counterBlock g w n i qh qph row (attrs, errs, cache) col))
     = snd (snd (counterBlock g' w' n' i' qh qph row (attrs', errs', cache) col))"
  by (cases col) (auto simp: counterBlock_def Let_def split: prod.splits option.splits)

lemma foldl_counterBlock_cache:
  "snd (snd (foldl (counterBlock g w n i qh qph row) (attrs, errs, cache) cols))
     = snd (snd (foldl (counterBlock g' w' n' i' qh qph row) (attrs', errs', cache) cols))"
proof (induction cols arbitrary: attrs errs attrs' errs' cache)
  case Nil
  then show ?case by simp
next
  case (Cons col cols)
  obtain a1 e1 c1 where s1: "counterBlock g w n i qh qph row (attrs, errs, cache) col = (a1, e1, c1)"
    by (cases "counterBlock g w n i qh qph row (attrs, errs, cache) col")
  obtain a2 e2 c2 where s2: "counterBlock g' w' n' i' qh qph row (attrs', errs', cache) col = (a2, e2, c2)"
    by (cases "counterBlock g' w' n' i' qh qph row (attrs', errs', cache) col")
  have "c1 = c2"
    using counterBlock_cache [of g w n i qh qph row attrs errs cache col g' w' n' i' attrs' errs'] s1 s2
    by simp
  then show ?case
    using Cons.IH [of a1 e1 c2 a2 e2] by (simp add: s1 s2)
qed

lemma counterColumn_names:
  assumes "k < length counterColumns" "counterColumns ! k = (column, rule, millis)"
  shows "column \<in> {''total_rows'', ''total_logical_reads'', ''total_logical_writes'',
                    ''total_physical_reads'', ''execution_count'', ''total_worker_time'', ''total_grant_kb''}"
proof -
  have "(column, rule, millis) \<in> set counterColumns"
    using assms by (metis nth_mem)
  then show ?thesis by (auto simp: counterColumns_def)
qed

lemma base_free:
  assumes "column \<in> {''total_rows'', ''total_logical_reads'', ''total_logical_writes'',
                    ''total_physical_reads'', ''execution_count'', ''total_worker_time'', ''total_grant_kb''}"
  shows "map_of (baseAttrs_C row d) (''db.'' @ column) = None"
    and "map_of (baseAttrs_A row d) column = None"
    and "''db.'' @ column \<noteq> ''db.query_text''" and "''db.'' @ column \<noteq> ''db.query_plan''"
    and "column \<noteq> ''query_text''" and "column \<noteq> ''normalized_query_plan''"
  using assms by (auto simp: baseAttrs_C_def baseAttrs_A_def map_of_Put)

text \<open>
  Claim C3, as amended. Take a row of the second loop, one of the seven counter
  columns, and the cache as it stands when that column is reached; let the column's
  call of \<^verbatim>\<open>cacheAndDiff\<close> be made (always for the first four columns, only after a
  successful parse for the last three), with \<^verbatim>\<open>total_worker_time\<close> divided by 1000
  first. In revision C the record then carries the attribute (under the name
  \<open>db.\<close> followed by the column) exactly when the call reports the key as cached, a
  difference of zero included. In revision A the record carries the attribute exactly
  when the key is cached and the difference is strictly positive.
\<close>

theorem counter_attribute_guard:
  assumes k: "k < length counterColumns" "counterColumns ! k = (column, rule, millis)"
      and p: "ParseInt (row_get row column) = (parsed, e)"
      and call: "rule = CallAlways \<or> e = None"
      and qh: "qh = EncodeToString (row_get row ''query_hash'')"
      and qph: "qph = EncodeToString (row_get row ''query_plan_hash'')"
      and s: "snd (snd (foldl (counterBlock False True (\<lambda>c. ''db.'' @ c) i qh qph row)
                 (baseAttrs_C row d, [], cache) (take k counterColumns))) = cacheK"
      and r: "cacheAndDiff cacheK qh qph column (if millis then int64_quo parsed 1000 else parsed)
                = (cached, diff, cache')"
  shows "map_of (Attributes (fst (recordRow_C env i cache row d))) (''db.'' @ column)
           = (if cached then Some (ValueInt diff) else None)
       \<and> map_of (Attributes (fst (recordRow_A env i cache row d))) column
           = (if cached \<and> 0 <s diff then Some (ValueInt diff) else None)"
proof -
  note names = base_free [OF counterColumn_names [OF k]]
  have dC: "distinct (map (\<lambda>c. ''db.'' @ fst c) counterColumns)"
    and dA: "distinct (map (\<lambda>c. fst c) counterColumns)"
    by (simp_all add: counterColumns_def)
  obtain aC eC where sC: "foldl (counterBlock False True (\<lambda>c. ''db.'' @ c) i qh qph row)
                 (baseAttrs_C row d, [], cache) (take k counterColumns) = (aC, eC, cacheK)"
    using s by (metis prod.collapse)
  obtain aA eA cA where sA0: "foldl (counterBlock True False (\<lambda>c. c) i qh qph row)
                 (baseAttrs_A row d, [], cache) (take k counterColumns) = (aA, eA, cA)"
    by (metis prod.collapse)
  have "cA = cacheK"
    using foldl_counterBlock_cache [of True False "\<lambda>c. c" i qh qph row "baseAttrs_A row d" "[]" cache
             "take k counterColumns" False True "\<lambda>c. ''db.'' @ c" i "baseAttrs_C row d" "[]"] sA0 sC
    by simp
  with sA0 have sA: "foldl (counterBlock True False (\<lambda>c. c) i qh qph row)
                 (baseAttrs_A row d, [], cache) (take k counterColumns) = (aA, eA, cacheK)"
    by simp
  have notskipped: "\<not> (rule = CallIfParsed \<and> e \<noteq> None)"
    using call by auto
  have fC: "map_of (fst (foldl (counterBlock False True (\<lambda>c. ''db.'' @ c) i qh qph row)
                 (baseAttrs_C row d, [], cache) counterColumns)) (''db.'' @ column)
              = (if cached then Some (ValueInt diff) else None)"
  proof -
    have b: "map_of (fst (baseAttrs_C row d, [] :: err list, cache)) (''db.'' @ column) = None"
      using names(1) by simp
    show ?thesis
      using foldl_counterBlock_own [OF dC k p sC b] notskipped r by auto
  qed
  have fA: "map_of (fst (foldl (counterBlock True False (\<lambda>c. c) i qh qph row)
                 (baseAttrs_A row d, [], cache) counterColumns)) column
              = (if cached \<and> 0 <s diff then Some (ValueInt diff) else None)"
  proof -
    have b: "map_of (fst (baseAttrs_A row d, [] :: err list, cache)) column = None"
      using names(2) by simp
    show ?thesis
      using foldl_counterBlock_own [OF dA k p sA b] notskipped r by auto
  qed
  have rC: "map_of (Attributes (fst (recordRow_C env i cache row d))) (''db.'' @ column)
      = map_of (fst (foldl (counterBlock False True (\<lambda>c. ''db.'' @ c) i qh qph row)
                 (baseAttrs_C row d, [], cache) counterColumns)) (''db.'' @ column)"
    using names(3,4) by (simp add: recordRow_C_def qh qph map_of_Put split: prod.splits)
  have rA: "map_of (Attributes (fst (recordRow_A env i cache row d))) column
      = map_of (fst (foldl (counterBlock True False (\<lambda>c. c) i qh qph row)
                 (baseAttrs_A row d, [], cache) counterColumns)) column"
    using names(5,6) by (simp add: recordRow_A_def qh qph map_of_Put split: prod.splits)
  show ?thesis by (simp only: rC rA fC fA)
qed

theorem counter_attribute_guard_witness:
  "counterColumns ! 0 = (''total_rows'', CallAlways, False)
   \<and> ParseInt (row_get sampleRow ''total_rows'') = (5, None)
   \<and> cacheAndDiff (Some sampleCache) ''71'' ''70'' ''total_rows'' 5 = (True, 0, Some sampleCache)
   \<and> map_of (Attributes (fst (recordRow_C sampleEnv 0 (Some sampleCache) sampleRow 4))) ''db.total_rows''
       = Some (ValueInt 0)
   \<and> map_of (Attributes (fst (recordRow_A sampleEnv 0 (Some sampleCache) sampleRow 4))) ''total_rows'' = None"
proof -
  have k: "0 < length counterColumns" "counterColumns ! 0 = (''total_rows'', CallAlways, False)"
    by (simp_all add: counterColumns_def)
  have p: "ParseInt (row_get sampleRow ''total_rows'') = (5, None)"
    by (simp add: go_eval sampleRow_def)
  have h: "''71'' = EncodeToString (row_get sampleRow ''query_hash'')"
          "''70'' = EncodeToString (row_get sampleRow ''query_plan_hash'')"
    by (simp_all add: go_eval sampleRow_def)
  have r: "cacheAndDiff (Some sampleCache) ''71'' ''70'' ''total_rows'' (if False then int64_quo 5 1000 else 5)
             = (True, 0, Some sampleCache)"
    by (simp add: cache_eval sampleCache_def)
  have call: "CallAlways = CallAlways \<or> (None :: numErr option) = None"
    by simp
  have s: "snd (snd (foldl (counterBlock False True (\<lambda>c. ''db.'' @ c) 0 ''71'' ''70'' sampleRow)
                 (baseAttrs_C sampleRow 4, [], Some sampleCache) (take 0 counterColumns))) = Some sampleCache"
    by simp
  from counter_attribute_guard [OF k p call h s r, where env = sampleEnv] k(2) p r
  show ?thesis by simp
qed

text \<open>
  The claim as first stated fails in revision A (scraper.go:413): for a row whose
  elapsed time grew and whose \<^verbatim>\<open>total_rows\<close> stayed at the cached 5, the call reports
  the key as cached with the difference 0, and the record has no \<^verbatim>\<open>total_rows\<close>
  attribute.
\<close>

theorem positive_guard_counterexample:
  "recordDatabaseQueryTextAndPlan_A sampleEnv (Some sampleCache) (QueryRowsOK [sampleRow]) 10
     = Some ([\<lparr>Attributes =
                 [(''computer_name'', ValueStr ''H''),
                  (''sql_instance'', ValueStr ''I''),
                  (''query_hash'', ValueStr ''71''),
                  (''query_plan_hash'', ValueStr ''70''),
                  (''total_elapsed_time'', ValueInt 4),
                  (''query_text'', ValueStr ''SELECT ?''),
                  (''normalized_query_plan'', ValueStr ''<a>x</a>'')],
               Body = []\<rparr>],
             None,
             Some \<lparr>lru_size = 8,
                   lru_items =
                     [(''71-70-total_grant_kb'', 0),
                      (''71-70-total_worker_time'', 3),
                      (''71-70-execution_count'', 7),
                      (''71-70-total_physical_reads'', 0),
                      (''71-70-total_logical_writes'', 0),
                      (''71-70-total_logical_reads'', 9),
                      (''71-70-total_rows'', 5),
                      (''71-70-total_elapsed_time'', 5)]\<rparr>)
   \<and> elapsedLoop (Some sampleCache) [sampleRow]
       = ([4], [], Some \<lparr>lru_size = 8, lru_items = [(''71-70-total_elapsed_time'', 5), (''71-70-total_rows'', 5)]\<rparr>)
   \<and> cacheAndDiff (Some \<lparr>lru_size = 8, lru_items = [(''71-70-total_elapsed_time'', 5), (''71-70-total_rows'', 5)]\<rparr>)
        ''71'' ''70'' ''total_rows'' 5
       = (True, 0, Some \<lparr>lru_size = 8, lru_items = [(''71-70-total_rows'', 5), (''71-70-total_elapsed_time'', 5)]\<rparr>)"
  by (simp add: recordDatabaseQueryTextAndPlan_A_def rowsOf_def row_eval sort_eval go_eval cache_eval
        sampleRow_def sampleCache_def xml_eval TrimSpace_x)

text \<open>
  Claim C4, at the input where the code fails it. For a row whose plan hash is \<open>p\<close> and
  whose plan handle is \<open>h\<close>, the first loop of the float64 revision caches the elapsed
  time under the key built from the handle (hex 68), not from the plan hash (hex 70);
  the first loop of the int64 revisions uses the plan hash.
\<close>

theorem plan_handle_in_key:
  "elapsedLoop_f64 sampleParseFloat sampleToInt64 (Some (lru_New 8)) [sampleRow]
     = ([0], Some \<lparr>lru_size = 8, lru_items = [(''71-68-total_elapsed_time'', 5000)]\<rparr>)
   \<and> EncodeToString (row_get sampleRow ''query_hash'') = ''71''
   \<and> EncodeToString (row_get sampleRow ''query_plan_hash'') = ''70''
   \<and> EncodeToString (row_get sampleRow ''query_plan_handle'') = ''68''
   \<and> elapsedLoop (Some (lru_New 8)) [sampleRow]
     = ([0], [], Some \<lparr>lru_size = 8, lru_items = [(''71-70-total_elapsed_time'', 5)]\<rparr>)"
  by (simp add: sampleParseFloat_def sampleToInt64_def go_eval cache_eval sampleRow_def)

section \<open>Claims about the obfuscation of XML plans\<close>

text \<open>
  A token with no targeted attribute and no padded character data goes through
  unchanged.
\<close>

lemma obfuscateAttr_other:
  "snd (fst a) \<notin> set XMLPlanObfuscationAttrs \<Longrightarrow> obfuscateAttr obf a = a"
  by (simp add: obfuscateAttr_def XMLPlanObfuscationAttrs_def)

lemma obfuscateToken_plain:
  "\<not> targetedAttr t \<Longrightarrow> \<not> paddedCharData t \<Longrightarrow> obfuscateToken obf t = t"
  by (cases t)
     (auto simp: obfuscateToken_def targetedAttr_def paddedCharData_def list_ex_iff
           intro!: map_idI obfuscateAttr_other)

lemma tokenLoop_cong:
  "list_all (\<lambda>t. f t = g t) toks \<Longrightarrow> tokenLoop lib f enc toks stop = tokenLoop lib g enc toks stop"
proof (induction toks arbitrary: enc)
  case Nil
  then show ?case by (cases stop) simp_all
next
  case (Cons t ts)
  then show ?case by (simp split: sum.splits)
qed

text \<open>
  Claim C8, as amended. For every plan whose tokens hold none of the four targeted
  attribute names and no character data with leading or trailing white space (so none
  that is only white space), \<^verbatim>\<open>obfuscateXMLPlan\<close> returns what decoding the plan and
  encoding its tokens unchanged returns: the same text, and an error only where that
  re-serialization has one.
\<close>

theorem obfuscateXMLPlan_identity:
  assumes "list_all (\<lambda>t. \<not> targetedAttr t \<and> \<not> paddedCharData t) (fst (xmlTokens lib rawPlan))"
  shows "obfuscateXMLPlan lib obf rawPlan = reserializeXML lib rawPlan"
proof -
  obtain toks stop where d: "xmlTokens lib rawPlan = (toks, stop)" by (cases "xmlTokens lib rawPlan")
  with assms have "list_all (\<lambda>t. obfuscateToken obf t = t) toks"
    by (auto simp: list_all_iff obfuscateToken_plain)
  then show ?thesis
    by (simp add: obfuscateXMLPlan_def reserializeXML_def d tokenLoop_cong)
qed

theorem obfuscateXMLPlan_identity_witness:
  "list_all (\<lambda>t. \<not> targetedAttr t \<and> \<not> paddedCharData t) (fst (xmlTokens sampleXml ''<a>x</a>''))
   \<and> obfuscateXMLPlan sampleXml sampleObfuscate ''<a>x</a>'' = Inr ''<a>x</a>''
   \<and> reserializeXML sampleXml ''<a>x</a>'' = Inr ''<a>x</a>''"
proof -
  have h: "list_all (\<lambda>t. \<not> targetedAttr t \<and> \<not> paddedCharData t) (fst (xmlTokens sampleXml ''<a>x</a>''))"
    by (simp add: sampleXml_def sampleTokens_def targetedAttr_def paddedCharData_def TrimSpace_x)
  have r: "reserializeXML sampleXml ''<a>x</a>'' = Inr ''<a>x</a>''"
    by (simp add: xml_eval)
  from obfuscateXMLPlan_identity [OF h, of sampleObfuscate] r h show ?thesis by simp
qed

text \<open>
  The claim as first stated fails on \<open><a> x </a>\<close>: the plan has no targeted attribute
  and no character data that is only white space, and yet the result is \<open><a>x</a>\<close>,
  since the character data is trimmed.
\<close>

theorem obfuscateXMLPlan_padding_counterexample:
  "fst (xmlTokens sampleXml ''<a> x </a>'')
     = [StartElement ([], ''a'') [], CharData '' x '', EndElement ([], ''a'')]
   \<and> list_all (\<lambda>t. \<not> targetedAttr t \<and> \<not> whitespaceOnly t) (fst (xmlTokens sampleXml ''<a> x </a>''))
   \<and> reserializeXML sampleXml ''<a> x </a>'' = Inr ''<a> x </a>''
   \<and> obfuscateXMLPlan sampleXml sampleObfuscate ''<a> x </a>'' = Inr ''<a>x</a>''"
  by (simp add: xml_eval targetedAttr_def whitespaceOnly_def TrimSpace_x)

section \<open>Claims about the joint sort\<close>

text \<open>
  Claim C6, as amended. Whatever \<^verbatim>\<open>sort.Slice\<close> does within its documented behaviour,
  for rows and differences of the same length: \<^verbatim>\<open>sortRows\<close> returns the rows read
  through a permutation of their indices, the sorted differences are the differences
  read through the same permutation, so the i-th difference still belongs to the i-th
  row, and the differences are in descending order. The order of rows with equal
  differences is not fixed.
\<close>

theorem sortRows_joint:
  fixes srtI :: "(nat \<Rightarrow> nat \<Rightarrow> bool) \<Rightarrow> nat list \<Rightarrow> nat list"
    and srtV :: "(int64 \<Rightarrow> int64 \<Rightarrow> bool) \<Rightarrow> int64 list \<Rightarrow> int64 list"
  assumes "sort_Slice_spec srtI" "sort_Slice_spec srtV" "length rows = length values"
  shows "\<exists>indices. mset indices = mset [0..<length rows]
      \<and> sortRows srtI rows values = Some (map (\<lambda>i. rows ! i) indices)
      \<and> srtV (\<lambda>a b. b <s a) values = map (\<lambda>i. values ! i) indices
      \<and> sorted_wrt (\<lambda>a b. b \<le>s a) (srtV (\<lambda>a b. b <s a) values)"
proof -
  let ?n = "length values"
  let ?key = "\<lambda>i. sint (values ! i)"
  define indices where "indices = srtI (\<lambda>a b. values ! b <s values ! a) [0..<?n]"
  have lt: "(\<lambda>a b. values ! b <s values ! a) = (\<lambda>a b. ?key b < ?key a)"
    by (simp add: word_sless_alt)
  have m: "mset indices = mset [0..<?n]"
    using assms(1) by (simp add: sort_Slice_spec_mset indices_def)
  have srt: "sorted_wrt (\<lambda>a b. ?key b \<le> ?key a) indices"
    unfolding indices_def lt using assms(1) by (rule sort_Slice_spec_sorted)
  have len: "length indices = ?n"
    using m by (metis length_upt mset_eq_length minus_nat.diff_0)
  have bound: "list_all (\<lambda>idx. idx < length rows) indices"
  proof -
    have "set indices = set [0..<?n]" using m by (rule mset_eq_setD)
    then show ?thesis using assms(3) by (auto simp: list_all_iff)
  qed
  have rows: "sortRows srtI rows values = Some (map (\<lambda>i. rows ! i) indices)"
    using len bound assms(3) by (simp add: sortRows_def indices_def [symmetric])
  let ?L1 = "map (\<lambda>i. values ! i) indices"
  let ?L2 = "srtV (\<lambda>a b. b <s a) values"
  have m1: "mset ?L1 = mset values"
  proof -
    have "mset ?L1 = image_mset (\<lambda>i. values ! i) (mset indices)" by simp
    also have "\<dots> = image_mset (\<lambda>i. values ! i) (mset [0..<?n])" by (simp only: m)
    also have "\<dots> = mset (map (\<lambda>i. values ! i) [0..<?n])" by (simp only: mset_map)
    also have "\<dots> = mset values" by (simp only: map_nth)
    finally show ?thesis .
  qed
  have s1: "sorted_wrt (\<lambda>a b. sint b \<le> sint a) ?L1"
    using srt by (simp add: sorted_wrt_map)
  have lt2: "(\<lambda>a b :: int64. b <s a) = (\<lambda>a b. sint b < sint a)"
    by (simp add: word_sless_alt)
  have m2: "mset ?L2 = mset values"
    using assms(2) by (simp add: sort_Slice_spec_mset)
  have s2: "sorted_wrt (\<lambda>a b. sint b \<le> sint a) ?L2"
    unfolding lt2 using assms(2) by (rule sort_Slice_spec_sorted)
  have eq: "?L2 = ?L1"
  proof (rule descending_unique)
    show "mset ?L2 = mset ?L1" by (simp only: m1 m2)
  qed (rule s2, rule s1)
  have s3: "sorted_wrt (\<lambda>a b. b \<le>s a) ?L2"
    using s2 by (simp add: word_sle_eq)
  from m rows eq s3 assms(3) show ?thesis by auto
qed

theorem sortRows_joint_witness:
  "sort_Slice_spec (insertionSort_func :: (nat \<Rightarrow> nat \<Rightarrow> bool) \<Rightarrow> nat list \<Rightarrow> nat list)
   \<and> sort_Slice_spec (insertionSort_func :: (int64 \<Rightarrow> int64 \<Rightarrow> bool) \<Rightarrow> int64 list \<Rightarrow> int64 list)
   \<and> sortRows insertionSort_func [[(''id'', ''row1'')], [(''id'', ''row2'')], [(''id'', ''row3'')]] [100, 10, 1000]
       = Some [[(''id'', ''row3'')], [(''id'', ''row1'')], [(''id'', ''row2'')]]
   \<and> insertionSort_func (\<lambda>a b. b <s a) [100, 10, 1000 :: int64] = [1000, 100, 10]
   \<and> sorted_wrt (\<lambda>a b. b \<le>s a) (insertionSort_func (\<lambda>a b. b <s a) [100, 10, 1000 :: int64])"
proof -
  have e: "sortRows insertionSort_func [[(''id'', ''row1'')], [(''id'', ''row2'')], [(''id'', ''row3'')]] [100, 10, 1000]
       = Some [[(''id'', ''row3'')], [(''id'', ''row1'')], [(''id'', ''row2'')]]"
    "insertionSort_func (\<lambda>a b. b <s a) [100, 10, 1000 :: int64] = [1000, 100, 10]"
    by (simp_all add: sort_eval word_sless_alt upt_rec)
  have l: "length [[(''id'', ''row1'')], [(''id'', ''row2'')], [(''id'', ''row3'')]] = length [100, 10, 1000 :: int64]"
    by simp
  from sortRows_joint [OF sort_Slice_spec_insertionSort sort_Slice_spec_insertionSort l]
  have "sorted_wrt (\<lambda>a b. b \<le>s a) (insertionSort_func (\<lambda>a b. b <s a) [100, 10, 1000 :: int64])"
    by blast
  then show ?thesis by (simp add: e sort_Slice_spec_insertionSort)
qed

text \<open>
  With at most 12 rows the rows with equal differences do keep their input order.
\<close>

lemma sortRows_stable_small:
  assumes "length rows = length values" and "length values \<le> 12"
  shows "\<exists>indices. sortRows sort_Slice rows values = Some (map (\<lambda>i. rows ! i) indices)
      \<and> mset indices = mset [0..<length values]
      \<and> (\<forall>v. filter (\<lambda>i. values ! i = v) indices = filter (\<lambda>i. values ! i = v) [0..<length values])"
proof -
  let ?n = "length values"
  let ?lt = "\<lambda>a b. values ! b <s values ! a"
  define indices where "indices = sort_Slice ?lt [0..<?n]"
  have ins: "indices = insertionSort_func ?lt [0..<?n]"
    unfolding indices_def using assms(2) by (simp add: sort_Slice_small)
  have m: "mset indices = mset [0..<?n]"
    unfolding ins using sort_Slice_spec_insertionSort by (rule sort_Slice_spec_mset)
  have len: "length indices = ?n"
    using m by (metis length_upt mset_eq_length minus_nat.diff_0)
  have bound: "list_all (\<lambda>idx. idx < length rows) indices"
  proof -
    have "set indices = set [0..<?n]" using m by (rule mset_eq_setD)
    then show ?thesis using assms(1) by (auto simp: list_all_iff)
  qed
  have rows: "sortRows sort_Slice rows values = Some (map (\<lambda>i. rows ! i) indices)"
    using len bound assms(1) by (simp add: sortRows_def indices_def [symmetric])
  have "filter (\<lambda>i. values ! i = v) indices = filter (\<lambda>i. values ! i = v) [0..<?n]" for v
    unfolding ins by (rule insertionSort_func_stable) (auto simp: word_sless_alt)
  with rows m show ?thesis by blast
qed

text \<open>
  The claim as first stated asks that rows with equal differences keep their input
  order. With 13 rows \<^verbatim>\<open>sort.Slice\<close> no longer runs the insertion sort: for twelve rows
  with the difference 5 followed by one row with the difference 9, the partition around
  the middle row brings row 6 in front of rows 0 to 5 and sends row 1 to the end,
  although all twelve have the same difference.
\<close>

theorem sortRows_ties_counterexample:
  "sortRows sort_Slice
     [[(''id'', ''row0'')], [(''id'', ''row1'')], [(''id'', ''row2'')], [(''id'', ''row3'')],
      [(''id'', ''row4'')], [(''id'', ''row5'')], [(''id'', ''row6'')], [(''id'', ''row7'')],
      [(''id'', ''row8'')], [(''id'', ''row9'')], [(''id'', ''row10'')], [(''id'', ''row11'')],
      [(''id'', ''row12'')]]
     [5, 5, 5, 5, 5, 5, 5, 5, 5, 5, 5, 5, 9]
   = Some
     [[(''id'', ''row12'')], [(''id'', ''row6'')], [(''id'', ''row2'')], [(''id'', ''row3'')],
      [(''id'', ''row4'')], [(''id'', ''row5'')], [(''id'', ''row0'')], [(''id'', ''row7'')],
      [(''id'', ''row8'')], [(''id'', ''row9'')], [(''id'', ''row10'')], [(''id'', ''row11'')],
      [(''id'', ''row1'')]]
   \<and> sort_Slice (\<lambda>a b. b <s a) [5, 5, 5, 5, 5, 5, 5, 5, 5, 5, 5, 5, 9 :: int64]
     = [9, 5, 5, 5, 5, 5, 5, 5, 5, 5, 5, 5, 5]"
  by (simp add: sortRows_def pdq_eval upt_rec word_sless_alt)

end
